theory Spec2Isabelle
  imports Main "HOL-Library.Multiset"
begin

section \<open>Data model\<close>

text \<open>
  The script \<^verbatim>\<open>fetch_ag_data_robust.py\<close> works on pandas DataFrames. A cell of a
  DataFrame is a piece of text (the raw \<^verbatim>\<open>Value\<close> of the API, such as \<^verbatim>\<open>1,234\<close> or
  \<^verbatim>\<open>(D)\<close>), a number (after cleaning, or read back from a cache file), or the missing
  value NaN. The number type \<open>'n\<close> stands for the numbers pandas produces; the two
  conversions between numbers and text that belong to pandas, \<^verbatim>\<open>astype(str)\<close> on a
  number and \<^verbatim>\<open>pd.to_numeric(..., errors='coerce')\<close> on a text, are parameters
  \<open>to_str\<close> and \<open>to_numeric\<close> of the functions below (\<open>to_numeric s = None\<close>: the text
  is coerced to NaN).
\<close>

datatype 'n cell = Str string | Num 'n | NaN

text \<open>
  Every frame of the script carries the three key columns \<^verbatim>\<open>state_name\<close>,
  \<^verbatim>\<open>county_name\<close>, \<^verbatim>\<open>year\<close>, on which the merge joins. A row keeps them as its key
  \<open>Key state_name county_name year\<close>; the
  field \<open>columns\<close> names the other columns, and the cells of a row stand in that order.
  \<^verbatim>\<open>pd.DataFrame()\<close> is the frame with no column and no row.
\<close>

datatype key = Key string string string

record 'n frame =
  columns :: "string list"
  rows :: "(key \<times> 'n cell list) list"

definition empty_frame :: "'n frame" where
  "empty_frame = \<lparr>columns = [], rows = []\<rparr>"

text \<open>\<^verbatim>\<open>df.empty\<close>: no rows (or no columns at all).\<close>

definition df_empty :: "'n frame \<Rightarrow> bool" where
  "df_empty df = (rows df = [])"

definition keys_of :: "'n frame \<Rightarrow> key list" where
  "keys_of df = map fst (rows df)"

text \<open>A row as pandas addresses it: by column name.\<close>

definition row_dict :: "string list \<Rightarrow> 'n cell list \<Rightarrow> (string \<rightharpoonup> 'n cell)" where
  "row_dict cols cells = map_of (zip cols cells)"

text \<open>Frames are rectangular: every row has one cell per column.\<close>

definition rectangular :: "'n frame \<Rightarrow> bool" where
  "rectangular df = list_all (\<lambda>r. length (snd r) = length (columns df)) (rows df)"

text \<open>
  Exceptions. \<^verbatim>\<open>KeyboardInterrupt\<close> is not an \<^verbatim>\<open>Exception\<close> in Python, so the handlers
  \<^verbatim>\<open>except Exception\<close> of the script let it pass. Every other exception is
  \<open>Exception name\<close>.
\<close>

datatype exc = KeyboardInterrupt | Exception string

section \<open>Constants of the script\<close>

definition TARGET_STATES :: "string list" where
  "TARGET_STATES = [''OR'', ''WA'', ''CA'', ''NV'', ''ID'', ''MT'']"

definition COMMON_PARAMS :: "(string \<times> string) list" where
  "COMMON_PARAMS =
    [(''key'', ''E8A03C0D-5253-3598-B95D-C8B0D7F6F8B2''),
     (''source_desc'', ''CENSUS''),
     (''year'', ''2022''),
     (''agg_level_desc'', ''COUNTY''),
     (''domain_desc'', ''TOTAL''),
     (''format'', ''JSON'')]"

text \<open>\<^verbatim>\<open>METRICS\<close>: column name, query descriptor, extra parameters.\<close>

definition METRICS :: "(string \<times> string \<times> (string \<times> string) list option) list" where
  "METRICS =
    [(''farms'', ''FARM OPERATIONS - NUMBER OF OPERATIONS'', None),
     (''cropland_acres'', ''AG LAND, CROPLAND - ACRES'', None),
     (''harvested_cropland_acres'', ''AG LAND, CROPLAND, HARVESTED - ACRES'', None),
     (''irrigated_acres'', ''AG LAND, IRRIGATED - ACRES'',
        Some [(''prodn_practice_desc'', ''IRRIGATED'')]),
     (''market_value_total_dollars'', ''COMMODITY TOTALS - SALES, MEASURED IN $'', None),
     (''crops_sales_dollars'', ''CROP TOTALS - SALES, MEASURED IN $'', None),
     (''livestock_sales_dollars'', ''ANIMAL TOTALS, INCL PRODUCTS - SALES, MEASURED IN $'', None),
     (''gov_payments_dollars'', ''GOVT PROGRAMS, FEDERAL - RECEIPTS, MEASURED IN $'', None),
     (''apples_acres'', ''APPLES - ACRES BEARING & NON-BEARING'', None),
     (''wheat_acres'', ''WHEAT - ACRES HARVESTED'', None),
     (''rice_acres'', ''RICE - ACRES HARVESTED'', None),
     (''hazelnuts_acres'', ''HAZELNUTS - ACRES BEARING & NON-BEARING'', None),
     (''grass_seed_bentgrass_acres'', ''GRASSES, BENTGRASS, SEED - ACRES HARVESTED'', None),
     (''grass_seed_bermudagrass_acres'', ''GRASSES, BERMUDA GRASS, SEED - ACRES HARVESTED'', None),
     (''grass_seed_bluegrass_acres'', ''GRASSES, BLUEGRASS, KENTUCKY, SEED - ACRES HARVESTED'', None),
     (''grass_seed_bromegrass_acres'', ''GRASSES, BROMEGRASS, SEED - ACRES HARVESTED'', None),
     (''grass_seed_fescue_acres'', ''GRASSES, FESCUE, SEED - ACRES HARVESTED'', None),
     (''grass_seed_orchardgrass_acres'', ''GRASSES, ORCHARDGRASS, SEED - ACRES HARVESTED'', None),
     (''grass_seed_ryegrass_acres'', ''GRASSES, RYEGRASS, SEED - ACRES HARVESTED'', None),
     (''grass_seed_sudangrass_acres'', ''GRASSES, SUDANGRASS, SEED - ACRES HARVESTED'', None),
     (''grass_seed_timothy_acres'', ''GRASSES, TIMOTHY, SEED - ACRES HARVESTED'', None),
     (''grass_seed_wheatgrass_acres'', ''GRASSES, WHEATGRASS, SEED - ACRES HARVESTED'', None),
     (''corn_acres'', ''CORN, GRAIN - ACRES HARVESTED'', None),
     (''corn_silage_acres'', ''CORN, SILAGE - ACRES HARVESTED'', None),
     (''hay_acres'', ''HAY - ACRES HARVESTED'', None),
     (''haylage_acres'', ''HAYLAGE - ACRES HARVESTED'', None),
     (''beef_cattle_head'', ''CATTLE, COWS, BEEF - INVENTORY'', None),
     (''dairy_cattle_head'', ''CATTLE, COWS, MILK - INVENTORY'', None)]"

text \<open>\<^verbatim>\<open>METRICS.keys()\<close>, in the order of the dictionary.\<close>

definition METRICS_keys :: "string list" where
  "METRICS_keys = map fst METRICS"

definition grass_seed_cols :: "string list" where
  "grass_seed_cols =
    [''grass_seed_bentgrass_acres'', ''grass_seed_bermudagrass_acres'',
     ''grass_seed_bluegrass_acres'', ''grass_seed_bromegrass_acres'',
     ''grass_seed_fescue_acres'', ''grass_seed_orchardgrass_acres'',
     ''grass_seed_ryegrass_acres'', ''grass_seed_sudangrass_acres'',
     ''grass_seed_timothy_acres'', ''grass_seed_wheatgrass_acres'']"

section \<open>Data cleaning (\<^verbatim>\<open>main\<close>, the loop over \<^verbatim>\<open>cols_to_clean\<close>)\<close>

text \<open>
  \<^verbatim>\<open>str.strip()\<close> removes leading and trailing whitespace. A \<open>char\<close> is a code point
  below 256; among these Python's whitespace is 9 to 13, 28 to 32, 133 (next line)
  and 160 (no-break space). The whitespace characters above 255 are not values of
  \<open>char\<close>.
\<close>

definition is_space :: "char \<Rightarrow> bool" where
  "is_space c =
     (let n = (of_char c :: nat)
      in (9 \<le> n \<and> n \<le> 13) \<or> (28 \<le> n \<and> n \<le> 32) \<or> n = 133 \<or> n = 160)"

definition str_strip :: "string \<Rightarrow> string" where
  "str_strip s = rev (dropWhile is_space (rev (dropWhile is_space s)))"

text \<open>\<^verbatim>\<open>str.replace(",", "", regex=False)\<close>.\<close>

definition str_replace_comma :: "string \<Rightarrow> string" where
  "str_replace_comma s = filter (\<lambda>c. c \<noteq> CHR '','') s"

text \<open>\<^verbatim>\<open>astype(str)\<close> on one cell: text stays, a number is printed, NaN becomes \<^verbatim>\<open>nan\<close>.\<close>

fun astype_str :: "('n \<Rightarrow> string) \<Rightarrow> 'n cell \<Rightarrow> string" where
  "astype_str to_str (Str s) = s"
| "astype_str to_str (Num n) = to_str n"
| "astype_str to_str NaN = ''nan''"

text \<open>
  \<^verbatim>\<open>clean_series = merged[col].astype(str).str.strip().str.replace(",", "", regex=False)\<close>,
  for one cell.
\<close>

definition clean_text :: "('n \<Rightarrow> string) \<Rightarrow> 'n cell \<Rightarrow> string" where
  "clean_text to_str c = str_replace_comma (str_strip (astype_str to_str c))"

text \<open>\<^verbatim>\<open>pd.to_numeric(clean_series, errors='coerce')\<close>, for one cell.\<close>

definition clean_cell :: "('n \<Rightarrow> string) \<Rightarrow> (string \<Rightarrow> 'n option) \<Rightarrow> 'n cell \<Rightarrow> 'n cell" where
  "clean_cell to_str to_numeric c =
     (case to_numeric (clean_text to_str c) of None \<Rightarrow> NaN | Some n \<Rightarrow> Num n)"

text \<open>\<^verbatim>\<open>merged[col] = f(merged[col])\<close>: the column named \<open>col\<close> is replaced in every row.\<close>

definition assign_column :: "string \<Rightarrow> ('n cell \<Rightarrow> 'n cell) \<Rightarrow> 'n frame \<Rightarrow> 'n frame" where
  "assign_column col f df =
     df\<lparr>rows := map (\<lambda>(k, cells). (k, map2 (\<lambda>c v. if c = col then f v else v) (columns df) cells))
                    (rows df)\<rparr>"

definition cols_to_clean :: "'n frame \<Rightarrow> string list" where
  "cols_to_clean merged = filter (\<lambda>col. col \<in> set (columns merged)) METRICS_keys"

definition clean_data :: "('n \<Rightarrow> string) \<Rightarrow> (string \<Rightarrow> 'n option) \<Rightarrow> 'n frame \<Rightarrow> 'n frame" where
  "clean_data to_str to_numeric merged =
     foldl (\<lambda>df col. assign_column col (clean_cell to_str to_numeric) df) merged
       (cols_to_clean merged)"

section \<open>Derived field (\<^verbatim>\<open>main\<close>, \<^verbatim>\<open>grass_seed_acres\<close>)\<close>

fun fillna :: "'n \<Rightarrow> 'n cell \<Rightarrow> 'n cell" where
  "fillna v NaN = Num v"
| "fillna v c = c"

fun isna :: "'n cell \<Rightarrow> bool" where
  "isna NaN = True"
| "isna c = False"

text \<open>
  \<^verbatim>\<open>sum(axis=1)\<close> over the cells of one row: NaN is skipped, and a text cell cannot be
  added to a number.
\<close>

fun sum_axis1 :: "('n::monoid_add) cell list \<Rightarrow> exc + 'n" where
  "sum_axis1 [] = Inr 0"
| "sum_axis1 (Num n # cs) = (case sum_axis1 cs of Inl e \<Rightarrow> Inl e | Inr t \<Rightarrow> Inr (n + t))"
| "sum_axis1 (NaN # cs) = sum_axis1 cs"
| "sum_axis1 (Str s # cs) = Inl (Exception ''TypeError'')"

text \<open>\<^verbatim>\<open>merged[cols]\<close> for one row; a name that is not a column is a \<^verbatim>\<open>KeyError\<close>.\<close>

definition select_cells :: "string list \<Rightarrow> string list \<Rightarrow> 'n cell list \<Rightarrow> exc + 'n cell list" where
  "select_cells sel cols cells =
     (case those (map (row_dict cols cells) sel) of
        None \<Rightarrow> Inl (Exception ''KeyError'')
      | Some vs \<Rightarrow> Inr vs)"

text \<open>
  The two assignments to \<^verbatim>\<open>grass_seed_acres\<close> for one row: first
  \<^verbatim>\<open>merged[existing_grass_cols].fillna(0).sum(axis=1)\<close>, then \<^verbatim>\<open>None\<close> where
  \<^verbatim>\<open>merged[existing_grass_cols].isna().all(axis=1)\<close>. The second selection reads the same
  cells as the first: the new column is not one of the selected ones.
\<close>

definition grass_seed_acres_cell ::
  "string list \<Rightarrow> string list \<Rightarrow> ('n::monoid_add) cell list \<Rightarrow> exc + 'n cell" where
  "grass_seed_acres_cell existing_grass_cols cols cells =
     (case select_cells existing_grass_cols cols cells of
        Inl e \<Rightarrow> Inl e
      | Inr sel \<Rightarrow>
          (case sum_axis1 (map (fillna 0) sel) of
             Inl e \<Rightarrow> Inl e
           | Inr row_sum \<Rightarrow> Inr (if list_all isna sel then NaN else Num row_sum)))"

text \<open>The first exception of a list of results, or all the values.\<close>

fun sequence_results :: "('e + 'a) list \<Rightarrow> 'e + 'a list" where
  "sequence_results [] = Inr []"
| "sequence_results (Inl e # rs) = Inl e"
| "sequence_results (Inr v # rs) =
     (case sequence_results rs of Inl e \<Rightarrow> Inl e | Inr vs \<Rightarrow> Inr (v # vs))"

text \<open>\<^verbatim>\<open>df[name] = values\<close>: an existing column is overwritten, a new one is appended.\<close>

definition set_column :: "string \<Rightarrow> 'n cell list \<Rightarrow> 'n frame \<Rightarrow> 'n frame" where
  "set_column name vals df =
     (if name \<in> set (columns df)
      then df\<lparr>rows := map2 (\<lambda>(k, cells) v.
                 (k, map2 (\<lambda>c old. if c = name then v else old) (columns df) cells))
               (rows df) vals\<rparr>
      else \<lparr>columns = columns df @ [name],
            rows = map2 (\<lambda>(k, cells) v. (k, cells @ [v])) (rows df) vals\<rparr>)"

definition existing_grass_cols :: "'n frame \<Rightarrow> string list" where
  "existing_grass_cols merged = filter (\<lambda>col. col \<in> set (columns merged)) grass_seed_cols"

definition calculated_fields :: "('n::monoid_add) frame \<Rightarrow> exc + 'n frame" where
  "calculated_fields merged =
     (if existing_grass_cols merged \<noteq> []
      then (case sequence_results
                   (map (\<lambda>(k, cells).
                           grass_seed_acres_cell (existing_grass_cols merged) (columns merged) cells)
                      (rows merged)) of
              Inl e \<Rightarrow> Inl e
            | Inr vals \<Rightarrow> Inr (set_column ''grass_seed_acres'' vals merged))
      else Inr merged)"

section \<open>Merging (\<^verbatim>\<open>main\<close>, the \<^verbatim>\<open>reduce\<close> of outer joins)\<close>

text \<open>
  \<^verbatim>\<open>pd.merge(left, right, on=["state_name", "county_name", "year"], how="outer")\<close>.
  A left row is paired with every right row of the same key, or with NaN cells when
  there is none; then come the right rows whose key the left frame lacks, with NaN in
  the left columns. A column name that both frames have gets the suffix \<^verbatim>\<open>_x\<close> on the
  left and \<^verbatim>\<open>_y\<close> on the right. pandas also orders the rows of an outer join by key;
  the order of the rows is left as the join produces it, since everything stated
  below is about the rows as a set or about how often a key occurs.
\<close>

definition merge_columns :: "string list \<Rightarrow> string list \<Rightarrow> string list" where
  "merge_columns l r =
     map (\<lambda>c. if c \<in> set r then c @ ''_x'' else c) l @
     map (\<lambda>c. if c \<in> set l then c @ ''_y'' else c) r"

definition nan_cells :: "'n frame \<Rightarrow> 'n cell list" where
  "nan_cells df = replicate (length (columns df)) NaN"

definition matches :: "'n frame \<Rightarrow> key \<Rightarrow> 'n cell list list" where
  "matches df k = map snd (filter (\<lambda>r. fst r = k) (rows df))"

definition left_rows :: "'n frame \<Rightarrow> 'n frame \<Rightarrow> (key \<times> 'n cell list) list" where
  "left_rows left right =
     concat (map (\<lambda>(k, vs).
                    case matches right k of
                      [] \<Rightarrow> [(k, vs @ nan_cells right)]
                    | ms \<Rightarrow> map (\<lambda>ws. (k, vs @ ws)) ms)
                 (rows left))"

definition right_only_rows :: "'n frame \<Rightarrow> 'n frame \<Rightarrow> (key \<times> 'n cell list) list" where
  "right_only_rows left right =
     map (\<lambda>(k, ws). (k, nan_cells left @ ws))
       (filter (\<lambda>r. fst r \<notin> set (keys_of left)) (rows right))"

definition merge_outer :: "'n frame \<Rightarrow> 'n frame \<Rightarrow> 'n frame" where
  "merge_outer left right =
     \<lparr>columns = merge_columns (columns left) (columns right),
      rows = left_rows left right @ right_only_rows left right\<rparr>"

text \<open>\<^verbatim>\<open>functools.reduce(f, frames)\<close> without an initial value: an empty list is a \<^verbatim>\<open>TypeError\<close>.\<close>

fun reduce :: "('a \<Rightarrow> 'a \<Rightarrow> 'a) \<Rightarrow> 'a list \<Rightarrow> exc + 'a" where
  "reduce f [] = Inl (Exception ''TypeError'')"
| "reduce f (x # xs) = Inr (foldl f x xs)"

section \<open>Fetching (\<^verbatim>\<open>fetch_metric_multistate\<close>)\<close>

text \<open>
  One record of the API's answer, with the fields the scripts read: the four that
  \<^verbatim>\<open>fetch_metric_multistate\<close> selects and the disclosure category \<^verbatim>\<open>domaincat_desc\<close>
  that the test script prints.
\<close>

record raw_record =
  state_name :: string
  county_name :: string
  year :: string
  Value :: string
  domaincat_desc :: string

text \<open>
  The JSON answer: its \<^verbatim>\<open>data\<close> list, when it has one. \<^verbatim>\<open>fetch_with_retry\<close> returns the
  answer or \<^verbatim>\<open>None\<close>; the network behind it is the parameter \<open>api\<close>, from the request
  parameters to what \<^verbatim>\<open>fetch_with_retry(BASE_URL, params)\<close> returns.
\<close>

datatype response = Response "raw_record list option"

type_synonym api = "(string \<rightharpoonup> string) \<Rightarrow> response option"

definition request_params ::
  "string \<Rightarrow> string \<Rightarrow> (string \<times> string) list option \<Rightarrow> (string \<rightharpoonup> string)" where
  "request_params short_desc state extra_params =
     (let params = (map_of COMMON_PARAMS)(''short_desc'' \<mapsto> short_desc, ''state_alpha'' \<mapsto> state)
      in case extra_params of None \<Rightarrow> params | Some extra \<Rightarrow> params ++ map_of (rev extra))"

text \<open>
  \<^verbatim>\<open>df = pd.DataFrame(data["data"]); df = df[["state_name", "county_name", "year", "Value"]]\<close>
\<close>

definition select_columns :: "raw_record list \<Rightarrow> 'n frame" where
  "select_columns recs =
     \<lparr>columns = [''Value''],
      rows = map (\<lambda>r. (Key (state_name r) (county_name r) (year r), [Str (Value r)])) recs\<rparr>"

text \<open>The body of the loop over \<^verbatim>\<open>TARGET_STATES\<close>: the frame appended for one state, if any.\<close>

definition fetch_state ::
  "api \<Rightarrow> string \<Rightarrow> (string \<times> string) list option \<Rightarrow> string \<Rightarrow> 'n frame option" where
  "fetch_state api short_desc extra_params state =
     (case api (request_params short_desc state extra_params) of
        Some (Response (Some recs)) \<Rightarrow>
          if length recs > 0 then Some (select_columns recs) else None
      | Some (Response None) \<Rightarrow> None
      | None \<Rightarrow> None)"

text \<open>
  \<^verbatim>\<open>pd.concat(all_states_data, ignore_index=True)\<close>, for frames that all have the same
  columns, as the frames of the states do.
\<close>

definition pd_concat :: "'n frame list \<Rightarrow> 'n frame" where
  "pd_concat dfs =
     \<lparr>columns = (case dfs of [] \<Rightarrow> [] | df # _ \<Rightarrow> columns df),
      rows = concat (map rows dfs)\<rparr>"

text \<open>
  The cache is a map from the metric's name to the frame its cache file holds. The
  result is the frame returned and the cache file written, if one is.
\<close>

definition fetch_metric_multistate ::
  "api \<Rightarrow> (string \<rightharpoonup> 'n frame) \<Rightarrow> string \<Rightarrow> string \<Rightarrow> (string \<times> string) list option
     \<Rightarrow> 'n frame \<times> (string \<times> 'n frame) option" where
  "fetch_metric_multistate api cache short_desc metric_name extra_params =
     (case cache metric_name of
        Some cached \<Rightarrow> (cached, None)
      | None \<Rightarrow>
          (let all_states_data =
                 List.map_filter (fetch_state api short_desc extra_params) TARGET_STATES
           in if all_states_data = [] then (empty_frame, None)
              else (let combined_df = pd_concat all_states_data
                    in (combined_df, Some (metric_name, combined_df)))))"

section \<open>The script (\<^verbatim>\<open>main\<close> and the \<^verbatim>\<open>__main__\<close> block)\<close>

text \<open>\<^verbatim>\<open>df.rename(columns={"Value": col_name}, inplace=True)\<close>\<close>

definition rename_value :: "string \<Rightarrow> 'n frame \<Rightarrow> 'n frame" where
  "rename_value col_name df =
     df\<lparr>columns := map (\<lambda>c. if c = ''Value'' then col_name else c) (columns df)\<rparr>"

text \<open>
  The loop over \<^verbatim>\<open>METRICS.items()\<close>. The parameter \<open>fetch\<close> is the call
  \<^verbatim>\<open>fetch_metric_multistate(desc, col_name, extra_params=extras)\<close> with its
  environment; an \<^verbatim>\<open>Exception\<close> it raises is caught and the metric is skipped.
\<close>

type_synonym 'n fetch =
  "string \<Rightarrow> string \<Rightarrow> (string \<times> string) list option \<Rightarrow> exc + 'n frame"

fun collect_frames ::
  "'n fetch \<Rightarrow> (string \<times> string \<times> (string \<times> string) list option) list \<Rightarrow> exc + 'n frame list" where
  "collect_frames fetch [] = Inr []"
| "collect_frames fetch ((col_name, desc, extras) # ms) =
     (case fetch desc col_name extras of
        Inl KeyboardInterrupt \<Rightarrow> Inl KeyboardInterrupt
      | Inl (Exception e) \<Rightarrow> collect_frames fetch ms
      | Inr df \<Rightarrow>
          (case collect_frames fetch ms of
             Inl e \<Rightarrow> Inl e
           | Inr frames \<Rightarrow>
               Inr (if \<not> df_empty df then rename_value col_name df # frames else frames)))"

text \<open>
  \<^verbatim>\<open>main\<close>. \<open>Inr None\<close>: it returned at \<^verbatim>\<open>if not frames\<close>, before merging, and wrote no
  output file; \<open>Inr (Some out)\<close>: it wrote the frame \<open>out\<close> to \<^verbatim>\<open>ag_data.csv\<close>; \<open>Inl e\<close>:
  the exception \<open>e\<close> left it.
\<close>

definition main ::
  "('n \<Rightarrow> string) \<Rightarrow> (string \<Rightarrow> 'n option) \<Rightarrow> ('n::monoid_add) fetch \<Rightarrow> exc + 'n frame option" where
  "main to_str to_numeric fetch =
     (case collect_frames fetch METRICS of
        Inl e \<Rightarrow> Inl e
      | Inr frames \<Rightarrow>
          if frames = [] then Inr None
          else (case reduce merge_outer frames of
                  Inl e \<Rightarrow> Inl e
                | Inr merged \<Rightarrow>
                    (case calculated_fields (clean_data to_str to_numeric merged) of
                       Inl e \<Rightarrow> Inl e
                     | Inr out \<Rightarrow> Inr (Some out))))"

text \<open>
  The \<^verbatim>\<open>__main__\<close> block: a \<^verbatim>\<open>KeyboardInterrupt\<close> is logged as a warning and the process
  ends normally; any other exception is logged and raised again, so the process ends
  with a traceback and a non-zero status; when \<^verbatim>\<open>main\<close> returns, the process ends
  normally.
\<close>

datatype exit_status = Exit_normal | Exit_abnormal

definition script ::
  "('n \<Rightarrow> string) \<Rightarrow> (string \<Rightarrow> 'n option) \<Rightarrow> ('n::monoid_add) fetch \<Rightarrow> exit_status \<times> 'n frame option" where
  "script to_str to_numeric fetch =
     (case main to_str to_numeric fetch of
        Inl KeyboardInterrupt \<Rightarrow> (Exit_normal, None)
      | Inl (Exception e) \<Rightarrow> (Exit_abnormal, None)
      | Inr out \<Rightarrow> (Exit_normal, out))"

text \<open>The script run against an API and a cache.\<close>

definition fetch_with :: "api \<Rightarrow> (string \<rightharpoonup> 'n frame) \<Rightarrow> 'n fetch" where
  "fetch_with api cache desc col_name extras =
     Inr (fst (fetch_metric_multistate api cache desc col_name extras))"

section \<open>The disclosure reconciler\<close>

text \<open>
  Modelled from the spec: \<^verbatim>\<open>process_county_records\<close> of \<^verbatim>\<open>fetch_ag_data_enhanced.py\<close>,
  which the test script imports and which is not among the sources. The spec's
  contract (section 4.2): a record labelled \<^verbatim>\<open>NOT SPECIFIED\<close> is the aggregate row; its
  value, when it parses as a number after stripping whitespace and removing
  thousands separators, is returned with \<open>estimated = False\<close>; otherwise the values of
  the other records that parse are summed and returned with \<open>estimated = True\<close>;
  when no value parses the result is absent with \<open>estimated = False\<close>. With several
  aggregate rows that parse, the first one is taken.
\<close>

definition is_aggregate :: "raw_record \<Rightarrow> bool" where
  "is_aggregate r = (domaincat_desc r = ''NOT SPECIFIED'')"

text \<open>
  Modelled from the spec: numeric parsing tolerates thousands separators and
  surrounding whitespace; a value that does not parse after that is unusable.
\<close>

definition parse_value :: "(string \<Rightarrow> 'n option) \<Rightarrow> string \<Rightarrow> 'n option" where
  "parse_value to_numeric s = to_numeric (str_replace_comma (str_strip s))"

text \<open>Modelled from the spec: the genuine numeric values among some records, in their order.\<close>

definition genuine_values :: "(string \<Rightarrow> 'n option) \<Rightarrow> raw_record list \<Rightarrow> 'n list" where
  "genuine_values to_numeric recs = List.map_filter (\<lambda>r. parse_value to_numeric (Value r)) recs"

text \<open>
  Modelled from the spec: the reconciler itself, returning the value (or none) and
  the flag \<open>estimated\<close>.
\<close>

definition process_county_records ::
  "(string \<Rightarrow> ('n::monoid_add) option) \<Rightarrow> raw_record list \<Rightarrow> 'n option \<times> bool" where
  "process_county_records to_numeric records =
     (case genuine_values to_numeric (filter is_aggregate records) of
        v # _ \<Rightarrow> (Some v, False)
      | [] \<Rightarrow>
          (case genuine_values to_numeric (filter (\<lambda>r. \<not> is_aggregate r) records) of
             [] \<Rightarrow> (None, False)
           | vs \<Rightarrow> (Some (sum_list vs), True)))"




section \<open>Predicates of the statements\<close>

text \<open>
  A metric produces no data when its fetch returns an empty frame, or raises an
  \<^verbatim>\<open>Exception\<close>, which the loop of \<^verbatim>\<open>main\<close> catches.
\<close>

definition produces_no_data ::
  "'n fetch \<Rightarrow> string \<times> string \<times> (string \<times> string) list option \<Rightarrow> bool" where
  "produces_no_data fetch m =
     (case m of (col_name, desc, extras) \<Rightarrow>
        (case fetch desc col_name extras of
           Inl KeyboardInterrupt \<Rightarrow> False
         | Inl (Exception e) \<Rightarrow> True
         | Inr df \<Rightarrow> df_empty df))"

text \<open>
  The rollup as the spec words it: the members of the family are the cells of the
  family's columns that the row has; the rollup is absent when all members are
  absent, and otherwise the sum of the members, an absent member counting as \<open>0\<close>.
\<close>

definition family_members :: "string list \<Rightarrow> string list \<Rightarrow> 'n cell list \<Rightarrow> 'n cell list" where
  "family_members family cols cells = List.map_filter (row_dict cols cells) family"

fun is_numeric :: "'n cell \<Rightarrow> bool" where
  "is_numeric (Str s) = False"
| "is_numeric c = True"

fun member_value :: "('n::zero) cell \<Rightarrow> 'n" where
  "member_value (Num n) = n"
| "member_value c = 0"

definition rollup_spec :: "('n::monoid_add) cell list \<Rightarrow> 'n cell" where
  "rollup_spec members =
     (if list_all isna members then NaN else Num (sum_list (map member_value members)))"




text \<open>
  The rows of a frame as a set, each row addressed by column name: how two tables
  are compared when the merge order, and with it the order of the columns and of
  the rows, changes.
\<close>

definition named_rows :: "'n frame \<Rightarrow> (key \<times> (string \<rightharpoonup> 'n cell)) set" where
  "named_rows df = (\<lambda>(k, cells). (k, row_dict (columns df) cells)) ` set (rows df)"

text \<open>
  The row of NaN cells that an outer join puts in the columns of a frame for a key
  that the frame lacks, and the rows of a frame completed by that row for every key
  the frame lacks.
\<close>

definition nan_row :: "'n frame \<Rightarrow> (string \<rightharpoonup> 'n cell)" where
  "nan_row df = row_dict (columns df) (nan_cells df)"

definition completed_rows :: "'n frame \<Rightarrow> (key \<times> (string \<rightharpoonup> 'n cell)) set" where
  "completed_rows df = named_rows df \<union> {(k, nan_row df) | k. k \<notin> set (keys_of df)}"




section \<open>Decimal naturals: an instance of the two conversions\<close>

text \<open>
  A reader and a printer of decimal naturals, to run the definitions above on
  concrete tables: \<open>read_nat\<close> accepts a non-empty string of digits and nothing else
  (so \<^verbatim>\<open>(D)\<close>, \<^verbatim>\<open>nan\<close> and the empty string are coerced to NaN).
\<close>

definition digit_val :: "char \<Rightarrow> nat option" where
  "digit_val c = (let n = (of_char c :: nat) in if 48 \<le> n \<and> n \<le> 57 then Some (n - 48) else None)"

fun read_digits :: "nat \<Rightarrow> string \<Rightarrow> nat option" where
  "read_digits acc [] = Some acc"
| "read_digits acc (c # cs) =
     (case digit_val c of None \<Rightarrow> None | Some d \<Rightarrow> read_digits (10 * acc + d) cs)"

definition read_nat :: "string \<Rightarrow> nat option" where
  "read_nat s = (if s = [] then None else read_digits 0 s)"

definition digit_char :: "nat \<Rightarrow> char" where
  "digit_char d = ''0123456789'' ! d"

fun show_nat :: "nat \<Rightarrow> string" where
  "show_nat n =
     (if n < 10 then [digit_char n] else show_nat (n div 10) @ [digit_char (n mod 10)])"

declare show_nat.simps [simp del]

section \<open>Sample data\<close>

text \<open>Records as the test script fetches them: one county, one metric, all categories.\<close>

definition county_record :: "string \<Rightarrow> string \<Rightarrow> raw_record" where
  "county_record category v =
     \<lparr>state_name = ''OREGON'', county_name = ''LANE'', year = ''2022'',
      Value = v, domaincat_desc = category\<rparr>"

definition disclosed_total :: "raw_record list" where
  "disclosed_total =
     [county_record ''INVENTORY OF BEEF COWS: (1 TO 9 HEAD)'' ''1,000'',
      county_record ''NOT SPECIFIED'' ''12,345'',
      county_record ''INVENTORY OF BEEF COWS: (10 TO 19 HEAD)'' ''(D)'']"

definition suppressed_total :: "raw_record list" where
  "suppressed_total =
     [county_record ''NOT SPECIFIED'' ''(D)'',
      county_record ''INVENTORY OF BEEF COWS: (1 TO 9 HEAD)'' ''5,000'',
      county_record ''INVENTORY OF BEEF COWS: (10 TO 19 HEAD)'' '' (D)'',
      county_record ''INVENTORY OF BEEF COWS: (20 TO 49 HEAD)'' ''2,500'']"


text \<open>An API that answers every request with an empty \<^verbatim>\<open>data\<close> list, and an empty cache.\<close>

definition no_data_api :: api where
  "no_data_api params = Some (Response (Some []))"

definition no_cache :: "string \<rightharpoonup> nat frame" where
  "no_cache = Map.empty"

text \<open>A merged table with raw values, and the same table cleaned.\<close>

definition sample_merged :: "nat frame" where
  "sample_merged =
     \<lparr>columns = [''farms'', ''grass_seed_fescue_acres'', ''grass_seed_ryegrass_acres''],
      rows = [(Key ''OREGON'' ''LANE'' ''2022'', [Str '' 1,234 '', Str ''(D)'', Str ''2,500'']),
              (Key ''OREGON'' ''LINN'' ''2022'', [Str ''0'', NaN, NaN]),
              (Key ''OREGON'' ''BENTON'' ''2022'', [Num 17, Str ''0'', NaN])]\<rparr>"

definition sample_cleaned :: "nat frame" where
  "sample_cleaned =
     \<lparr>columns = [''farms'', ''grass_seed_fescue_acres'', ''grass_seed_ryegrass_acres''],
      rows = [(Key ''OREGON'' ''LANE'' ''2022'', [Num 1234, NaN, Num 2500]),
              (Key ''OREGON'' ''LINN'' ''2022'', [Num 0, NaN, NaN]),
              (Key ''OREGON'' ''BENTON'' ''2022'', [Num 17, Num 0, NaN])]\<rparr>"

text \<open>The cleaned table with its derived field.\<close>

definition sample_final :: "nat frame" where
  "sample_final =
     \<lparr>columns = [''farms'', ''grass_seed_fescue_acres'', ''grass_seed_ryegrass_acres'',
                 ''grass_seed_acres''],
      rows = [(Key ''OREGON'' ''LANE'' ''2022'', [Num 1234, NaN, Num 2500, Num 2500]),
              (Key ''OREGON'' ''LINN'' ''2022'', [Num 0, NaN, NaN, NaN]),
              (Key ''OREGON'' ''BENTON'' ''2022'', [Num 17, Num 0, NaN, Num 0])]\<rparr>"

text \<open>The key of Lane County, Oregon, in 2022.\<close>

definition lane_key :: key where
  "lane_key = Key ''OREGON'' ''LANE'' ''2022''"

text \<open>Two per-metric tables: in the second the key of Lane County occurs once, or twice.\<close>

definition farms_frame :: "nat frame" where
  "farms_frame =
     \<lparr>columns = [''farms''],
      rows = [(Key ''OREGON'' ''LANE'' ''2022'', [Str ''2,345'']),
              (Key ''OREGON'' ''LINN'' ''2022'', [Str ''1,987''])]\<rparr>"

definition beef_frame :: "nat frame" where
  "beef_frame =
     \<lparr>columns = [''beef_cattle_head''],
      rows = [(Key ''OREGON'' ''LANE'' ''2022'', [Str ''7,500'']),
              (Key ''OREGON'' ''BENTON'' ''2022'', [Str ''(D)''])]\<rparr>"

definition beef_frame_twice :: "nat frame" where
  "beef_frame_twice =
     \<lparr>columns = [''beef_cattle_head''],
      rows = [(Key ''OREGON'' ''LANE'' ''2022'', [Str ''(D)'']),
              (Key ''OREGON'' ''LANE'' ''2022'', [Str ''5,000''])]\<rparr>"

definition farms_beef_merged :: "nat frame" where
  "farms_beef_merged =
     \<lparr>columns = [''farms'', ''beef_cattle_head''],
      rows = [(Key ''OREGON'' ''LANE'' ''2022'', [Str ''2,345'', Str ''7,500'']),
              (Key ''OREGON'' ''LINN'' ''2022'', [Str ''1,987'', NaN]),
              (Key ''OREGON'' ''BENTON'' ''2022'', [NaN, Str ''(D)''])]\<rparr>"

definition beef_farms_merged :: "nat frame" where
  "beef_farms_merged =
     \<lparr>columns = [''beef_cattle_head'', ''farms''],
      rows = [(Key ''OREGON'' ''LANE'' ''2022'', [Str ''7,500'', Str ''2,345'']),
              (Key ''OREGON'' ''BENTON'' ''2022'', [Str ''(D)'', NaN]),
              (Key ''OREGON'' ''LINN'' ''2022'', [NaN, Str ''1,987''])]\<rparr>"

definition farms_beef_twice_merged :: "nat frame" where
  "farms_beef_twice_merged =
     \<lparr>columns = [''farms'', ''beef_cattle_head''],
      rows = [(Key ''OREGON'' ''LANE'' ''2022'', [Str ''2,345'', Str ''(D)'']),
              (Key ''OREGON'' ''LANE'' ''2022'', [Str ''2,345'', Str ''5,000'']),
              (Key ''OREGON'' ''LINN'' ''2022'', [Str ''1,987'', NaN])]\<rparr>"




section \<open>The disclosure reconciler: properties\<close>

lemma set_genuine_values:
  "set (genuine_values tn recs) = {v. \<exists>r\<in>set recs. parse_value tn (Value r) = Some v}"
  by (induction recs) (auto simp: genuine_values_def List.map_filter_simps split: option.splits)

lemma genuine_values_Nil_iff:
  "genuine_values tn recs = [] \<longleftrightarrow> (\<forall>r\<in>set recs. parse_value tn (Value r) = None)"
  by (induction recs) (auto simp: genuine_values_def List.map_filter_simps split: option.splits)

lemma sum_list_genuine_values:
  "sum_list (genuine_values tn recs) =
   sum_list (map (\<lambda>r. case parse_value tn (Value r) of None \<Rightarrow> 0 | Some n \<Rightarrow> n) recs)"
  by (induction recs) (auto simp: genuine_values_def List.map_filter_simps split: option.splits)

lemmas sample_eval =
  county_record_def is_aggregate_def parse_value_def str_strip_def str_replace_comma_def
  is_space_def read_nat_def digit_val_def

text \<open>
  Claim C1. When the records contain an aggregate row (category \<^verbatim>\<open>NOT SPECIFIED\<close>) whose
  value parses as a number \<open>v\<close>, the reconciler returns \<open>v\<close> with \<open>estimated = False\<close>,
  whatever the subcategory rows are: they do not occur in the hypotheses. The spec's
  input has one aggregate row; the statement allows several, as long as those that
  parse carry the same number.
\<close>

theorem aggregate_value_is_authoritative:
  assumes "r \<in> set records" and "is_aggregate r"
    and "parse_value to_numeric (Value r) = Some v"
    and "\<forall>r'\<in>set records. is_aggregate r' \<longrightarrow>
           parse_value to_numeric (Value r') = None \<or> parse_value to_numeric (Value r') = Some v"
  shows "process_county_records to_numeric records = (Some v, False)"
proof -
  let ?agg = "genuine_values to_numeric (filter is_aggregate records)"
  have "v \<in> set ?agg"
    using assms(1-3) by (auto simp: set_genuine_values)
  moreover have "set ?agg \<subseteq> {v}"
    using assms(4) by (auto simp: set_genuine_values)
  ultimately obtain vs where "?agg = v # vs"
    by (cases ?agg) auto
  then show ?thesis
    by (simp add: process_county_records_def)
qed

theorem aggregate_value_is_authoritative_witness:
  "county_record ''NOT SPECIFIED'' ''12,345'' \<in> set disclosed_total
   \<and> is_aggregate (county_record ''NOT SPECIFIED'' ''12,345'')
   \<and> parse_value read_nat ''12,345'' = Some 12345
   \<and> process_county_records read_nat disclosed_total = (Some 12345, False)"
proof -
  let ?r = "county_record ''NOT SPECIFIED'' ''12,345''"
  have h1: "?r \<in> set disclosed_total"
    by (simp add: disclosed_total_def)
  have h2: "is_aggregate ?r"
    by (simp add: sample_eval)
  have h3: "parse_value read_nat (Value ?r) = Some 12345"
    by (simp add: sample_eval)
  have h4: "\<forall>r'\<in>set disclosed_total. is_aggregate r' \<longrightarrow>
              parse_value read_nat (Value r') = None \<or> parse_value read_nat (Value r') = Some 12345"
    by (simp add: disclosed_total_def sample_eval)
  show ?thesis
    using h1 h2 h3 aggregate_value_is_authoritative [OF h1 h2 h3 h4]
    by (simp add: county_record_def)
qed

text \<open>
  Claim C2. When no aggregate row carries a number (there is none, or its value is a
  suppression marker or other text that does not parse) and some subcategory row
  does, the reconciler returns the sum of the subcategory values that parse, with
  \<open>estimated = True\<close>; a subcategory row that does not parse adds \<open>0\<close>.
\<close>

theorem suppressed_aggregate_is_estimated:
  assumes "\<forall>r\<in>set records. is_aggregate r \<longrightarrow> parse_value to_numeric (Value r) = None"
    and "\<exists>r\<in>set records. \<not> is_aggregate r \<and> parse_value to_numeric (Value r) \<noteq> None"
  shows "process_county_records to_numeric records =
           (Some (sum_list (map (\<lambda>r. case parse_value to_numeric (Value r) of
                                        None \<Rightarrow> 0 | Some n \<Rightarrow> n)
                              (filter (\<lambda>r. \<not> is_aggregate r) records))), True)"
proof -
  let ?sub = "genuine_values to_numeric (filter (\<lambda>r. \<not> is_aggregate r) records)"
  have agg: "genuine_values to_numeric (filter is_aggregate records) = []"
    using assms(1) by (simp add: genuine_values_Nil_iff)
  have "?sub \<noteq> []"
    using assms(2) by (auto simp: genuine_values_Nil_iff)
  then obtain x xs where eq: "?sub = x # xs"
    by (cases ?sub) auto
  have "process_county_records to_numeric records = (Some (sum_list ?sub), True)"
    by (simp add: process_county_records_def agg eq)
  then show ?thesis
    by (simp only: sum_list_genuine_values)
qed

theorem suppressed_aggregate_is_estimated_witness:
  "process_county_records read_nat suppressed_total = (Some 7500, True)"
proof -
  have h1: "\<forall>r\<in>set suppressed_total. is_aggregate r \<longrightarrow> parse_value read_nat (Value r) = None"
    by (simp add: suppressed_total_def sample_eval)
  have h2: "\<exists>r\<in>set suppressed_total. \<not> is_aggregate r \<and> parse_value read_nat (Value r) \<noteq> None"
    by (simp add: suppressed_total_def sample_eval)
  show ?thesis
    using suppressed_aggregate_is_estimated [OF h1 h2]
    by (simp add: suppressed_total_def sample_eval)
qed





section \<open>The script: properties\<close>

lemma collect_frames_no_data:
  "list_all (produces_no_data fetch) ms \<Longrightarrow> collect_frames fetch ms = Inr []"
  by (induction ms) (auto simp: produces_no_data_def split: sum.splits exc.splits)

lemma fetch_no_data: "fetch_with no_data_api no_cache desc col_name extras = Inr empty_frame"
  by (simp add: fetch_with_def fetch_metric_multistate_def no_cache_def fetch_state_def
      no_data_api_def TARGET_STATES_def List.map_filter_simps)

lemma no_data_api_produces_no_data:
  "list_all (produces_no_data (fetch_with no_data_api no_cache)) METRICS"
  by (simp add: produces_no_data_def fetch_no_data df_empty_def empty_frame_def list_all_iff)

text \<open>
  Claim C10, as stated, fails: when every request is answered with an empty list,
  so that no metric produces data, the script writes no output, and the process
  ends normally, not abnormally. \<^verbatim>\<open>main\<close> logs the error and returns at
  \<^verbatim>\<open>if not frames\<close>; no exception reaches the \<^verbatim>\<open>__main__\<close> block.
\<close>

theorem no_data_exit_counterexample:
  "script show_nat read_nat (fetch_with no_data_api no_cache) = (Exit_normal, None)
   \<and> script show_nat read_nat (fetch_with no_data_api no_cache) \<noteq> (Exit_abnormal, None)"
proof -
  have "collect_frames (fetch_with no_data_api no_cache) METRICS = Inr []"
    using no_data_api_produces_no_data by (rule collect_frames_no_data)
  then show ?thesis
    by (simp add: main_def script_def)
qed

text \<open>
  Claim C10, amended. When no metric produces data (every fetch returns an empty
  frame or raises an exception that the loop catches), \<^verbatim>\<open>main\<close> returns before
  merging and writes no output file, and the process ends normally.
\<close>

theorem no_data_returns_before_output:
  assumes "list_all (produces_no_data fetch) METRICS"
  shows "main to_str to_numeric fetch = Inr None
         \<and> script to_str to_numeric fetch = (Exit_normal, None)"
  using collect_frames_no_data [OF assms] by (simp add: main_def script_def)

theorem no_data_returns_before_output_witness:
  "list_all (produces_no_data (fetch_with no_data_api no_cache)) METRICS
   \<and> main show_nat read_nat (fetch_with no_data_api no_cache) = Inr None
   \<and> script show_nat read_nat (fetch_with no_data_api no_cache) = (Exit_normal, None)"
  using no_data_api_produces_no_data
    no_data_returns_before_output [OF no_data_api_produces_no_data, of show_nat read_nat]
  by simp

section \<open>Data cleaning: properties\<close>

lemma map2_map2:
  "map2 g cols (map2 h cols cells) = map2 (\<lambda>c v. g c (h c v)) cols cells"
proof (induction cols arbitrary: cells)
  case Nil
  then show ?case by simp
next
  case (Cons c cols)
  then show ?case by (cases cells) simp_all
qed

lemma map2_cong_zip:
  "(\<And>c v. (c, v) \<in> set (zip cols cells) \<Longrightarrow> g c v = h c v) \<Longrightarrow> map2 g cols cells = map2 h cols cells"
  by (rule map_cong) auto

lemma map2_snd: "length cells = length cols \<Longrightarrow> map2 (\<lambda>c v. v) cols cells = cells"
  using map_snd_zip [of cols cells] by (simp add: case_prod_unfold)

lemma columns_assign_column [simp]: "columns (assign_column col f df) = columns df"
  by (simp add: assign_column_def)

lemma rectangular_assign_column: "rectangular df \<Longrightarrow> rectangular (assign_column col f df)"
  by (auto simp: rectangular_def assign_column_def list_all_iff)

lemma columns_foldl_assign:
  "columns (foldl (\<lambda>df col. assign_column col f df) df cs) = columns df"
  by (induction cs arbitrary: df) simp_all

lemma rows_foldl_assign:
  "rectangular df \<Longrightarrow> distinct cs \<Longrightarrow>
   rows (foldl (\<lambda>df col. assign_column col f df) df cs) =
   map (\<lambda>(k, cells). (k, map2 (\<lambda>c v. if c \<in> set cs then f v else v) (columns df) cells)) (rows df)"
proof (induction cs arbitrary: df)
  case Nil
  have "(case r of (k, cells) \<Rightarrow> (k, map2 (\<lambda>c v. v) (columns df) cells)) = r" if "r \<in> set (rows df)" for r
  proof -
    obtain k cells where r: "r = (k, cells)"
      by (cases r)
    have "length cells = length (columns df)"
      using that Nil(1) r by (auto simp: rectangular_def list_all_iff)
    then show ?thesis
      by (simp add: r map2_snd)
  qed
  then have "map (\<lambda>(k, cells). (k, map2 (\<lambda>c v. v) (columns df) cells)) (rows df) = rows df"
    by (simp add: map_idI)
  then show ?case by simp
next
  case (Cons c cs)
  have "rows (foldl (\<lambda>df col. assign_column col f df) (assign_column c f df) cs) =
        map (\<lambda>(k, cells). (k, map2 (\<lambda>c v. if c \<in> set cs then f v else v) (columns df) cells))
          (rows (assign_column c f df))"
    using Cons.IH [of "assign_column c f df"] Cons.prems by (simp add: rectangular_assign_column)
  also have "\<dots> = map (\<lambda>(k, cells). (k, map2 (\<lambda>c' v. if c' \<in> set (c # cs) then f v else v) (columns df) cells)) (rows df)"
    using Cons.prems(2)
    by (auto simp: assign_column_def map2_map2 intro!: map2_cong_zip)
  finally show ?case by simp
qed

lemma distinct_METRICS_keys: "distinct METRICS_keys"
  by (simp add: METRICS_keys_def METRICS_def)

lemma grass_seed_cols_METRICS: "set grass_seed_cols \<subseteq> set METRICS_keys"
  by (simp add: METRICS_keys_def METRICS_def grass_seed_cols_def)

lemma grass_seed_acres_not_metric: "''grass_seed_acres'' \<notin> set METRICS_keys"
  by (simp add: METRICS_keys_def METRICS_def)

lemma columns_clean_data [simp]: "columns (clean_data ts tn merged) = columns merged"
  by (simp add: clean_data_def columns_foldl_assign)

lemma rows_clean_data:
  assumes "rectangular merged"
  shows "rows (clean_data ts tn merged) =
     map (\<lambda>(k, cells). (k, map2 (\<lambda>c v. if c \<in> set METRICS_keys then clean_cell ts tn v else v) (columns merged) cells)) (rows merged)"
proof -
  have "distinct (cols_to_clean merged)"
    by (simp add: cols_to_clean_def distinct_METRICS_keys)
  then have "rows (clean_data ts tn merged) =
     map (\<lambda>(k, cells). (k, map2 (\<lambda>c v. if c \<in> set (cols_to_clean merged) then clean_cell ts tn v else v) (columns merged) cells)) (rows merged)"
    unfolding clean_data_def using assms by (rule rows_foldl_assign [rotated])
  also have "\<dots> = map (\<lambda>(k, cells). (k, map2 (\<lambda>c v. if c \<in> set METRICS_keys then clean_cell ts tn v else v) (columns merged) cells)) (rows merged)"
    by (auto simp: cols_to_clean_def intro!: map2_cong_zip dest: set_zip_leftD)
  finally show ?thesis .
qed

text \<open>
  Claim C5. On a rectangular merged table, cleaning leaves the columns and the keys as
  they are and replaces the cell of every column that is a key of \<^verbatim>\<open>METRICS\<close> by the
  number \<^verbatim>\<open>to_numeric\<close> reads from its text after \<^verbatim>\<open>strip\<close> and the removal of commas;
  a text that \<^verbatim>\<open>to_numeric\<close> does not read becomes NaN, never a number and never an
  error, so a cell that reads as \<open>0\<close> becomes \<open>Num 0\<close> and only an unreadable one becomes
  \<open>NaN\<close>. The other columns are not touched.
\<close>

theorem clean_data_parses_metric_columns:
  assumes "rectangular merged"
  shows "columns (clean_data to_str to_numeric merged) = columns merged
    \<and> rows (clean_data to_str to_numeric merged) =
        map (\<lambda>(k, cells).
               (k, map2 (\<lambda>col v. if col \<in> set METRICS_keys
                                  then (case to_numeric (str_replace_comma (str_strip (astype_str to_str v))) of
                                          None \<Rightarrow> NaN | Some n \<Rightarrow> Num n)
                                  else v)
                        (columns merged) cells))
            (rows merged)"
  using rows_clean_data [OF assms, of to_str to_numeric]
  unfolding clean_cell_def clean_text_def by simp

lemma rectangular_sample_merged: "rectangular sample_merged"
  by (simp add: rectangular_def sample_merged_def)

lemmas clean_eval = str_strip_def str_replace_comma_def
  is_space_def read_nat_def digit_val_def digit_char_def show_nat.simps

lemma clean_sample_merged: "clean_data show_nat read_nat sample_merged = sample_cleaned"
proof -
  have "rows (clean_data show_nat read_nat sample_merged) = rows sample_cleaned"
    unfolding rows_clean_data [OF rectangular_sample_merged]
    by (simp add: sample_merged_def sample_cleaned_def METRICS_keys_def METRICS_def
        clean_cell_def clean_text_def clean_eval)
  then show ?thesis
    by (simp add: frame.equality sample_merged_def sample_cleaned_def)
qed

theorem clean_data_parses_metric_columns_witness:
  "rectangular sample_merged \<and> clean_data show_nat read_nat sample_merged = sample_cleaned"
proof -
  have "columns (clean_data show_nat read_nat sample_merged) = columns sample_cleaned"
    using clean_data_parses_metric_columns [OF rectangular_sample_merged, of show_nat read_nat]
    by (simp add: sample_merged_def sample_cleaned_def)
  moreover have "rows (clean_data show_nat read_nat sample_merged) = rows sample_cleaned"
    using clean_data_parses_metric_columns [OF rectangular_sample_merged, of show_nat read_nat]
    by (simp add: sample_merged_def sample_cleaned_def METRICS_keys_def METRICS_def clean_eval)
  ultimately show ?thesis
    using rectangular_sample_merged by (simp add: frame.equality)
qed

lemma digit_val_digit_char: "d < 10 \<Longrightarrow> digit_val (digit_char d) = Some d"
proof -
  assume "d < 10"
  then have "d \<in> {0, 1, 2, 3, 4, 5, 6, 7, 8, 9}"
    by auto
  then show ?thesis
    by (auto simp: digit_val_def digit_char_def)
qed

lemma digit_char_tidy: "d < 10 \<Longrightarrow> \<not> is_space (digit_char d) \<and> digit_char d \<noteq> CHR '',''"
proof -
  assume "d < 10"
  then have "d \<in> {0, 1, 2, 3, 4, 5, 6, 7, 8, 9}"
    by auto
  then show ?thesis
    by (auto simp: is_space_def digit_char_def)
qed

lemma read_digits_append:
  "read_digits acc (xs @ ys) =
     (case read_digits acc xs of None \<Rightarrow> None | Some a \<Rightarrow> read_digits a ys)"
  by (induction xs arbitrary: acc) (auto split: option.splits)

lemma show_nat_not_Nil: "show_nat n \<noteq> []"
  by (subst show_nat.simps) simp

lemma read_digits_show_nat: "read_digits 0 (show_nat n) = Some n"
proof (induction n rule: show_nat.induct)
  case (1 n)
  show ?case
  proof (cases "n < 10")
    case True
    then show ?thesis
      by (subst show_nat.simps) (simp add: digit_val_digit_char)
  next
    case False
    then have "read_digits 0 (show_nat (n div 10)) = Some (n div 10)"
      by (rule "1.IH")
    then show ?thesis
      using False by (subst show_nat.simps) (simp add: read_digits_append digit_val_digit_char)
  qed
qed

lemma read_nat_show_nat: "read_nat (show_nat n) = Some n"
  by (simp add: read_nat_def show_nat_not_Nil read_digits_show_nat)

lemma show_nat_tidy: "ch \<in> set (show_nat n) \<Longrightarrow> \<not> is_space ch \<and> ch \<noteq> CHR '',''"
proof (induction n rule: show_nat.induct)
  case (1 n)
  show ?case
  proof (cases "n < 10")
    case True
    then show ?thesis
      using "1.prems" digit_char_tidy [of n] by (subst (asm) show_nat.simps) simp
  next
    case False
    then show ?thesis
      using "1.prems" "1.IH" digit_char_tidy [of "n mod 10"]
      by (subst (asm) show_nat.simps) auto
  qed
qed

lemma read_nat_nan: "read_nat ''nan'' = None"
  by (simp add: read_nat_def digit_val_def)

lemma dropWhile_none: "(\<And>x. x \<in> set xs \<Longrightarrow> \<not> P x) \<Longrightarrow> dropWhile P xs = xs"
  by (cases xs) simp_all

lemma str_strip_tidy: "(\<And>ch. ch \<in> set s \<Longrightarrow> \<not> is_space ch) \<Longrightarrow> str_strip s = s"
proof -
  assume tidy: "\<And>ch. ch \<in> set s \<Longrightarrow> \<not> is_space ch"
  have "dropWhile is_space s = s"
    by (rule dropWhile_none) (rule tidy)
  moreover have "dropWhile is_space (rev s) = rev s"
    by (rule dropWhile_none) (simp add: tidy)
  ultimately show ?thesis
    by (simp add: str_strip_def)
qed

lemma str_replace_comma_tidy: "(\<And>ch. ch \<in> set s \<Longrightarrow> ch \<noteq> CHR '','') \<Longrightarrow> str_replace_comma s = s"
  by (simp add: str_replace_comma_def)

lemma clean_text_nan: "clean_text to_str NaN = ''nan''"
  by (simp add: clean_text_def str_strip_def str_replace_comma_def is_space_def)

lemma clean_cell_clean_cell:
  assumes nan: "to_numeric ''nan'' = None"
    and reads_back: "\<And>s n. to_numeric s = Some n \<Longrightarrow>
                 to_numeric (to_str n) = Some n
                 \<and> (\<forall>ch\<in>set (to_str n). \<not> is_space ch \<and> ch \<noteq> CHR '','')"
  shows "clean_cell to_str to_numeric (clean_cell to_str to_numeric c) = clean_cell to_str to_numeric c"
proof (cases "to_numeric (clean_text to_str c)")
  case None
  then show ?thesis
    by (simp add: clean_cell_def clean_text_nan nan)
next
  case (Some n)
  from reads_back [OF Some] have rt: "to_numeric (to_str n) = Some n"
    and tidy: "\<And>ch. ch \<in> set (to_str n) \<Longrightarrow> \<not> is_space ch \<and> ch \<noteq> CHR '',''"
    by auto
  have "clean_text to_str (Num n) = to_str n"
    using tidy by (simp add: clean_text_def str_strip_tidy str_replace_comma_tidy)
  then show ?thesis
    using Some rt by (simp add: clean_cell_def)
qed

lemma rectangular_clean_data: "rectangular merged \<Longrightarrow> rectangular (clean_data ts tn merged)"
  by (auto simp: rectangular_def rows_clean_data list_all_iff)

text \<open>
  Claim C6. Cleaning is idempotent, for a single column and for the whole table:
  cleaning what has been cleaned changes nothing. What is needed of pandas is that
  \<^verbatim>\<open>nan\<close> reads as NaN, and that every number \<^verbatim>\<open>to_numeric\<close> yields is printed by
  \<^verbatim>\<open>astype(str)\<close> as a text without whitespace or commas that reads back as the same
  number.
\<close>

theorem cleaning_is_idempotent:
  assumes nan: "to_numeric ''nan'' = None"
    and reads_back: "\<And>s n. to_numeric s = Some n \<Longrightarrow>
                 to_numeric (to_str n) = Some n
                 \<and> (\<forall>ch\<in>set (to_str n). \<not> is_space ch \<and> ch \<noteq> CHR '','')"
    and rect: "rectangular merged"
  shows "map (clean_cell to_str to_numeric) (map (clean_cell to_str to_numeric) column)
           = map (clean_cell to_str to_numeric) column
       \<and> clean_data to_str to_numeric (clean_data to_str to_numeric merged)
           = clean_data to_str to_numeric merged"
proof
  note cc = clean_cell_clean_cell [of to_numeric to_str, OF nan reads_back]
  show "map (clean_cell to_str to_numeric) (map (clean_cell to_str to_numeric) column)
           = map (clean_cell to_str to_numeric) column"
    by (simp add: cc)
  let ?once = "clean_data to_str to_numeric merged"
  let ?g = "\<lambda>c v. if c \<in> set METRICS_keys then clean_cell to_str to_numeric v else v"
  have "map2 ?g cols (map2 ?g cols cells) = map2 ?g cols cells" for cols cells
    unfolding map2_map2 by (rule map2_cong_zip) (simp add: cc)
  then have "rows (clean_data to_str to_numeric ?once) = rows ?once"
    by (simp add: rows_clean_data rect rectangular_clean_data case_prod_unfold)
  then show "clean_data to_str to_numeric ?once = ?once"
    by (simp add: frame.equality)
qed

theorem cleaning_is_idempotent_witness:
  "read_nat ''nan'' = None \<and> rectangular sample_merged
   \<and> clean_data show_nat read_nat sample_cleaned = sample_cleaned"
proof -
  have reads_back: "read_nat (show_nat n) = Some n
              \<and> (\<forall>ch\<in>set (show_nat n). \<not> is_space ch \<and> ch \<noteq> CHR '','')" for n
    using read_nat_show_nat show_nat_tidy by blast
  have once: "clean_data show_nat read_nat sample_merged = sample_cleaned"
    by (rule clean_sample_merged)
  show ?thesis
    using cleaning_is_idempotent [of read_nat show_nat sample_merged, OF read_nat_nan reads_back rectangular_sample_merged]
    by (simp add: once read_nat_nan rectangular_sample_merged)
qed

section \<open>Derived field: properties\<close>

lemma row_dict_map2:
  "length old = length cols \<Longrightarrow> c \<in> set cols \<Longrightarrow>
   \<exists>v0. row_dict cols (map2 g cols old) c = Some (g c v0)"
proof (induction old cols rule: list_induct2)
  case Nil
  then show ?case by simp
next
  case (Cons v old c' cols)
  then show ?case
    by (cases "c' = c") (auto simp: row_dict_def)
qed

lemma is_numeric_clean_cell: "is_numeric (clean_cell ts tn v)"
  by (simp add: clean_cell_def split: option.splits)

lemma those_map_filter:
  "(\<And>x. x \<in> set xs \<Longrightarrow> f x \<noteq> None) \<Longrightarrow> those (map f xs) = Some (List.map_filter f xs)"
  by (induction xs) (auto simp: List.map_filter_simps split: option.splits)

lemma length_map_filter_all:
  "(\<And>x. x \<in> set xs \<Longrightarrow> f x \<noteq> None) \<Longrightarrow> length (List.map_filter f xs) = length xs"
  by (induction xs) (auto simp: List.map_filter_simps split: option.splits)

lemma set_map_filter_subset:
  "v \<in> set (List.map_filter f xs) \<Longrightarrow> \<exists>x\<in>set xs. f x = Some v"
  by (induction xs) (auto simp: List.map_filter_simps split: option.splits)

lemma sum_axis1_numeric:
  "list_all is_numeric ms \<Longrightarrow> sum_axis1 (map (fillna 0) ms) = Inr (sum_list (map member_value ms))"
proof (induction ms)
  case Nil
  then show ?case by simp
next
  case (Cons m ms)
  then show ?case by (cases m) simp_all
qed

lemma sequence_results_Inr: "sequence_results (map (\<lambda>r. Inr (h r)) rs) = Inr (map h rs)"
  by (induction rs) simp_all

lemma zip_map_same: "zip rs (map h rs) = map (\<lambda>r. (r, h r)) rs"
  by (induction rs) simp_all

lemma existing_grass_cols_clean_data [simp]:
  "existing_grass_cols (clean_data ts tn merged) = existing_grass_cols merged"
  by (simp add: existing_grass_cols_def)

lemma existing_grass_cols_memD:
  "c \<in> set (existing_grass_cols merged) \<Longrightarrow> c \<in> set (columns merged) \<and> c \<in> set METRICS_keys"
  using grass_seed_cols_METRICS by (auto simp: existing_grass_cols_def)

lemma cleaned_row_family:
  assumes rect: "rectangular merged"
    and row: "(k, cells) \<in> set (rows (clean_data ts tn merged))"
    and c: "c \<in> set (existing_grass_cols merged)"
  shows "\<exists>v. row_dict (columns merged) cells c = Some v \<and> is_numeric v"
proof -
  let ?g = "\<lambda>c v. if c \<in> set METRICS_keys then clean_cell ts tn v else v"
  from row obtain old where old: "(k, old) \<in> set (rows merged)"
    and cells: "cells = map2 ?g (columns merged) old"
    by (auto simp: rows_clean_data [OF rect])
  have len: "length old = length (columns merged)"
    using rect old by (auto simp: rectangular_def list_all_iff)
  from existing_grass_cols_memD [OF c] have "c \<in> set (columns merged)" and m: "c \<in> set METRICS_keys"
    by auto
  with row_dict_map2 [OF len, of c ?g] obtain v0
    where "row_dict (columns merged) cells c = Some (?g c v0)"
    by (auto simp: cells)
  then show ?thesis
    using m by (simp add: is_numeric_clean_cell)
qed

lemma grass_seed_acres_cell_cleaned:
  fixes merged :: "('n::monoid_add) frame"
  assumes rect: "rectangular merged"
    and row: "(k, cells) \<in> set (rows (clean_data ts tn merged))"
  shows "grass_seed_acres_cell (existing_grass_cols merged) (columns merged) cells =
           Inr (rollup_spec (family_members (existing_grass_cols merged) (columns merged) cells))"
    and "length (family_members (existing_grass_cols merged) (columns merged) cells) =
           length (existing_grass_cols merged)"
    and "list_all is_numeric (family_members (existing_grass_cols merged) (columns merged) cells)"
proof -
  let ?E = "existing_grass_cols merged"
  let ?ms = "family_members ?E (columns merged) cells"
  have found: "row_dict (columns merged) cells c \<noteq> None" if "c \<in> set ?E" for c
    using cleaned_row_family [OF rect row that] by auto
  then have sel: "select_cells ?E (columns merged) cells = Inr ?ms"
    by (simp add: select_cells_def family_members_def those_map_filter)
  show len: "length ?ms = length ?E"
    using found by (simp add: family_members_def length_map_filter_all)
  show num: "list_all is_numeric ?ms"
    unfolding list_all_iff family_members_def
  proof
    fix v assume "v \<in> set (List.map_filter (row_dict (columns merged) cells) ?E)"
    then obtain c where "c \<in> set ?E" and "row_dict (columns merged) cells c = Some v"
      by (auto dest: set_map_filter_subset)
    then show "is_numeric v"
      using cleaned_row_family [OF rect row, of c] by auto
  qed
  show "grass_seed_acres_cell ?E (columns merged) cells = Inr (rollup_spec ?ms)"
    by (simp add: grass_seed_acres_cell_def sel sum_axis1_numeric [OF num] rollup_spec_def)
qed

text \<open>
  Claim C9. On a rectangular merged table that has at least one grass-seed column
  (and no column \<^verbatim>\<open>grass_seed_acres\<close> yet, as no key of \<^verbatim>\<open>METRICS\<close> has that name),
  the derived field is computed without an exception after cleaning; it appends the
  column \<^verbatim>\<open>grass_seed_acres\<close>, whose cell in every row is the rollup of the spec: NaN
  when the row's cells in all the grass-seed columns present are NaN, otherwise the
  sum of those that are numbers. Every grass-seed column present contributes its
  cell, and after cleaning that cell is a number or NaN. Without any grass-seed
  column the table is returned as it is, with no rollup column.
\<close>

theorem grass_seed_acres_is_rollup:
  fixes merged :: "('n::monoid_add) frame"
  assumes rect: "rectangular merged"
    and ex: "existing_grass_cols merged \<noteq> []"
    and new: "''grass_seed_acres'' \<notin> set (columns merged)"
  shows "calculated_fields (clean_data to_str to_numeric merged) =
           Inr \<lparr>columns = columns merged @ [''grass_seed_acres''],
                rows = map (\<lambda>(k, cells).
                              (k, cells @ [rollup_spec (family_members (existing_grass_cols merged)
                                                          (columns merged) cells)]))
                         (rows (clean_data to_str to_numeric merged))\<rparr>
       \<and> list_all (\<lambda>(k, cells).
                    length (family_members (existing_grass_cols merged) (columns merged) cells)
                      = length (existing_grass_cols merged)
                    \<and> list_all is_numeric
                        (family_members (existing_grass_cols merged) (columns merged) cells))
           (rows (clean_data to_str to_numeric merged))"
proof
  let ?cl = "clean_data to_str to_numeric merged"
  let ?E = "existing_grass_cols merged"
  let ?h = "\<lambda>(k, cells). rollup_spec (family_members ?E (columns merged) cells)"
  have eq: "map (\<lambda>(k, cells). grass_seed_acres_cell ?E (columns merged) cells) (rows ?cl) =
        map (\<lambda>r. Inr (?h r)) (rows ?cl)"
    by (rule map_cong) (auto simp: grass_seed_acres_cell_cleaned(1) [OF rect])
  have seq: "sequence_results
               (map (\<lambda>(k, cells). grass_seed_acres_cell ?E (columns merged) cells) (rows ?cl)) =
             Inr (map ?h (rows ?cl))"
    unfolding eq by (rule sequence_results_Inr)
  have "calculated_fields ?cl = Inr (set_column ''grass_seed_acres'' (map ?h (rows ?cl)) ?cl)"
    using ex by (simp add: calculated_fields_def seq)
  also have "set_column ''grass_seed_acres'' (map ?h (rows ?cl)) ?cl =
     \<lparr>columns = columns merged @ [''grass_seed_acres''],
      rows = map (\<lambda>(k, cells). (k, cells @ [rollup_spec (family_members ?E (columns merged) cells)]))
               (rows ?cl)\<rparr>"
    using new by (simp add: set_column_def zip_map_same case_prod_unfold comp_def)
  finally show "calculated_fields ?cl =
     Inr \<lparr>columns = columns merged @ [''grass_seed_acres''],
      rows = map (\<lambda>(k, cells). (k, cells @ [rollup_spec (family_members ?E (columns merged) cells)]))
               (rows ?cl)\<rparr>" .
  show "list_all (\<lambda>(k, cells).
                    length (family_members ?E (columns merged) cells) = length ?E
                    \<and> list_all is_numeric (family_members ?E (columns merged) cells))
           (rows ?cl)"
    using grass_seed_acres_cell_cleaned(2,3) [OF rect]
    unfolding list_all_iff by auto
qed

lemma existing_grass_cols_sample:
  "existing_grass_cols sample_merged = [''grass_seed_fescue_acres'', ''grass_seed_ryegrass_acres'']"
  by (simp add: existing_grass_cols_def sample_merged_def grass_seed_cols_def)

theorem grass_seed_acres_is_rollup_witness:
  "rectangular sample_merged \<and> existing_grass_cols sample_merged \<noteq> []
   \<and> ''grass_seed_acres'' \<notin> set (columns sample_merged)
   \<and> calculated_fields (clean_data show_nat read_nat sample_merged) = Inr sample_final"
proof -
  have ex: "existing_grass_cols sample_merged \<noteq> []"
    by (simp add: existing_grass_cols_sample)
  have new: "''grass_seed_acres'' \<notin> set (columns sample_merged)"
    by (simp add: sample_merged_def)
  have "calculated_fields (clean_data show_nat read_nat sample_merged) = Inr sample_final"
    using grass_seed_acres_is_rollup [OF rectangular_sample_merged ex new, of show_nat read_nat]
    unfolding clean_sample_merged existing_grass_cols_sample
    by (simp add: sample_merged_def sample_cleaned_def sample_final_def rollup_spec_def
        family_members_def row_dict_def List.map_filter_simps)
  then show ?thesis
    using rectangular_sample_merged ex new by simp
qed

section \<open>Fetching: properties\<close>






section \<open>Merging: properties\<close>

subsection \<open>Rows and keys of one outer join\<close>

lemma in_matches: "ws \<in> set (matches R k) \<longleftrightarrow> (k, ws) \<in> set (rows R)"
  by (force simp: matches_def)

lemma in_keys_of: "k \<in> set (keys_of R) \<longleftrightarrow> (\<exists>ws. (k, ws) \<in> set (rows R))"
  by (force simp: keys_of_def)

lemma matches_Nil_iff: "matches R k = [] \<longleftrightarrow> k \<notin> set (keys_of R)"
proof -
  have "matches R k = [] \<longleftrightarrow> (\<forall>ws. ws \<notin> set (matches R k))"
    by (cases "matches R k") auto
  then show ?thesis
    by (simp add: in_matches in_keys_of)
qed

lemma in_left_row:
  "(k', cs) \<in> set (case matches R k of [] \<Rightarrow> [(k, vs @ nan_cells R)]
                                        | ms \<Rightarrow> map (\<lambda>ws. (k, vs @ ws)) ms) \<longleftrightarrow>
   k' = k \<and> ((\<exists>ws. (k, ws) \<in> set (rows R) \<and> cs = vs @ ws)
            \<or> (k \<notin> set (keys_of R) \<and> cs = vs @ nan_cells R))"
proof (cases "matches R k")
  case Nil
  then have no: "k \<notin> set (keys_of R)"
    by (simp add: matches_Nil_iff)
  then have "\<And>ws. (k, ws) \<notin> set (rows R)"
    by (simp add: in_keys_of)
  then show ?thesis
    using Nil no by auto
next
  case (Cons w ms)
  then have yes: "k \<in> set (keys_of R)"
    using matches_Nil_iff [of R k] by simp
  have "(k', cs) \<in> set (map (\<lambda>ws. (k, vs @ ws)) (matches R k)) \<longleftrightarrow>
        k' = k \<and> (\<exists>ws. (k, ws) \<in> set (rows R) \<and> cs = vs @ ws)"
    by (auto simp: in_matches)
  then show ?thesis
    using yes by (simp add: Cons)
qed

lemma in_left_rows:
  "(k, cs) \<in> set (left_rows L R) \<longleftrightarrow>
   (\<exists>vs. (k, vs) \<in> set (rows L)
      \<and> ((\<exists>ws. (k, ws) \<in> set (rows R) \<and> cs = vs @ ws)
         \<or> (k \<notin> set (keys_of R) \<and> cs = vs @ nan_cells R)))"
  (is "?lhs \<longleftrightarrow> ?rhs")
proof
  assume ?lhs
  then obtain r where r: "r \<in> set (rows L)"
    and mem: "(k, cs) \<in> set (case r of (k, vs) \<Rightarrow>
                 case matches R k of [] \<Rightarrow> [(k, vs @ nan_cells R)]
                 | ms \<Rightarrow> map (\<lambda>ws. (k, vs @ ws)) ms)"
    unfolding left_rows_def set_concat set_map by blast
  obtain k0 vs where r0: "r = (k0, vs)"
    by (cases r)
  from mem have "k = k0 \<and> ((\<exists>ws. (k0, ws) \<in> set (rows R) \<and> cs = vs @ ws)
            \<or> (k0 \<notin> set (keys_of R) \<and> cs = vs @ nan_cells R))"
    unfolding r0 prod.case in_left_row .
  then show ?rhs
    using r r0 by blast
next
  assume ?rhs
  then obtain vs where r: "(k, vs) \<in> set (rows L)"
    and alt: "(\<exists>ws. (k, ws) \<in> set (rows R) \<and> cs = vs @ ws)
         \<or> (k \<notin> set (keys_of R) \<and> cs = vs @ nan_cells R)"
    by blast
  from alt have "(k, cs) \<in> set (case (k, vs) of (k, vs) \<Rightarrow>
                 case matches R k of [] \<Rightarrow> [(k, vs @ nan_cells R)]
                 | ms \<Rightarrow> map (\<lambda>ws. (k, vs @ ws)) ms)"
    unfolding prod.case in_left_row by simp
  with r show ?lhs
    unfolding left_rows_def set_concat set_map by blast
qed

lemma in_right_only_rows:
  "(k, cs) \<in> set (right_only_rows L R) \<longleftrightarrow>
   (\<exists>ws. (k, ws) \<in> set (rows R) \<and> k \<notin> set (keys_of L) \<and> cs = nan_cells L @ ws)"
  by (force simp: right_only_rows_def)

lemma in_rows_merge_outer:
  "(k, cs) \<in> set (rows (merge_outer L R)) \<longleftrightarrow>
     (\<exists>vs ws. (k, vs) \<in> set (rows L) \<and> (k, ws) \<in> set (rows R) \<and> cs = vs @ ws)
   \<or> (\<exists>vs. (k, vs) \<in> set (rows L) \<and> k \<notin> set (keys_of R) \<and> cs = vs @ nan_cells R)
   \<or> (\<exists>ws. (k, ws) \<in> set (rows R) \<and> k \<notin> set (keys_of L) \<and> cs = nan_cells L @ ws)"
proof -
  have "(k, cs) \<in> set (rows (merge_outer L R)) \<longleftrightarrow>
        (k, cs) \<in> set (left_rows L R) \<or> (k, cs) \<in> set (right_only_rows L R)"
    by (simp add: merge_outer_def)
  then show ?thesis
    by (auto simp: in_left_rows in_right_only_rows)
qed

lemma set_keys_merge_outer:
  "set (keys_of (merge_outer L R)) = set (keys_of L) \<union> set (keys_of R)"
proof (intro set_eqI iffI)
  fix k
  assume "k \<in> set (keys_of (merge_outer L R))"
  then obtain cs where "(k, cs) \<in> set (rows (merge_outer L R))"
    by (auto simp: in_keys_of)
  then show "k \<in> set (keys_of L) \<union> set (keys_of R)"
    by (auto simp: in_rows_merge_outer in_keys_of)
next
  fix k
  assume k: "k \<in> set (keys_of L) \<union> set (keys_of R)"
  show "k \<in> set (keys_of (merge_outer L R))"
  proof (cases "k \<in> set (keys_of L)")
    case True
    then obtain vs where vs: "(k, vs) \<in> set (rows L)"
      by (auto simp: in_keys_of)
    show ?thesis
    proof (cases "k \<in> set (keys_of R)")
      case True
      then obtain ws where "(k, ws) \<in> set (rows R)"
        by (auto simp: in_keys_of)
      with vs have "(k, vs @ ws) \<in> set (rows (merge_outer L R))"
        unfolding in_rows_merge_outer by blast
      then show ?thesis
        unfolding in_keys_of [of k "merge_outer L R"] by blast
    next
      case False
      with vs have "(k, vs @ nan_cells R) \<in> set (rows (merge_outer L R))"
        unfolding in_rows_merge_outer by blast
      then show ?thesis
        unfolding in_keys_of [of k "merge_outer L R"] by blast
    qed
  next
    case False
    with k obtain ws where "(k, ws) \<in> set (rows R)"
      by (auto simp: in_keys_of)
    with False have "(k, nan_cells L @ ws) \<in> set (rows (merge_outer L R))"
      unfolding in_rows_merge_outer by blast
    then show ?thesis
      unfolding in_keys_of [of k "merge_outer L R"] by blast
  qed
qed

lemma merge_columns_disjoint:
  "set l \<inter> set r = {} \<Longrightarrow> merge_columns l r = l @ r"
proof -
  assume d: "set l \<inter> set r = {}"
  have "map (\<lambda>c. if c \<in> set r then c @ ''_x'' else c) l = l"
    by (rule map_idI) (use d in auto)
  moreover have "map (\<lambda>c. if c \<in> set l then c @ ''_y'' else c) r = r"
    by (rule map_idI) (use d in auto)
  ultimately show ?thesis
    by (simp add: merge_columns_def)
qed

lemma length_merge_columns: "length (merge_columns l r) = length l + length r"
  by (simp add: merge_columns_def)

lemma rectangular_iff:
  "rectangular df \<longleftrightarrow> (\<forall>k cs. (k, cs) \<in> set (rows df) \<longrightarrow> length cs = length (columns df))"
  by (auto simp: rectangular_def list_all_iff)

lemma rectangular_merge_outer:
  assumes "rectangular L" and "rectangular R"
  shows "rectangular (merge_outer L R)"
  unfolding rectangular_iff [of "merge_outer L R"]
proof (intro allI impI)
  fix k cs
  assume "(k, cs) \<in> set (rows (merge_outer L R))"
  then have "length cs = length (columns L) + length (columns R)"
    using assms by (auto simp: in_rows_merge_outer rectangular_iff nan_cells_def)
  then show "length cs = length (columns (merge_outer L R))"
    by (simp add: merge_outer_def length_merge_columns)
qed

lemma keys_right_only_rows:
  "map fst (right_only_rows L R) = filter (\<lambda>k. k \<notin> set (keys_of L)) (keys_of R)"
  by (simp add: right_only_rows_def keys_of_def filter_map comp_def case_prod_unfold)

subsection \<open>Rows by column name\<close>

lemma dom_row_dict: "length vs = length a \<Longrightarrow> dom (row_dict a vs) = set a"
  by (simp add: row_dict_def dom_map_of_zip)

lemma row_dict_append:
  assumes "length vs = length a" and "set a \<inter> set b = {}" and "length ws = length b"
  shows "row_dict (a @ b) (vs @ ws) = row_dict a vs ++ row_dict b ws"
proof -
  have "row_dict (a @ b) (vs @ ws) = row_dict b ws ++ row_dict a vs"
    using assms(1) by (simp add: row_dict_def)
  also have "\<dots> = row_dict a vs ++ row_dict b ws"
    by (rule map_add_comm) (use assms in \<open>auto simp: dom_row_dict\<close>)
  finally show ?thesis .
qed

lemma nan_row_apply: "nan_row df c = (if c \<in> set (columns df) then Some NaN else None)"
proof -
  have "map_of (zip a (replicate (length a) v)) c = (if c \<in> set a then Some v else None)"
    for a :: "string list" and v :: "'a cell"
    by (induction a) auto
  then show ?thesis
    by (simp add: nan_row_def row_dict_def nan_cells_def)
qed

lemma dom_nan_row: "dom (nan_row df) = set (columns df)"
  by (auto simp: nan_row_apply dom_def)

lemma in_named_rows:
  "(k, m) \<in> named_rows df \<longleftrightarrow> (\<exists>cs. (k, cs) \<in> set (rows df) \<and> m = row_dict (columns df) cs)"
  by (force simp: named_rows_def)

lemma named_rows_key: "(k, m) \<in> named_rows df \<Longrightarrow> k \<in> set (keys_of df)"
  by (auto simp: in_named_rows in_keys_of)

lemma in_completed_rows:
  "(k, m) \<in> completed_rows df \<longleftrightarrow>
     (k, m) \<in> named_rows df \<or> (k \<notin> set (keys_of df) \<and> m = nan_row df)"
  by (auto simp: completed_rows_def)

lemma dom_completed_row:
  assumes "rectangular df" and "(k, m) \<in> completed_rows df"
  shows "dom m = set (columns df)"
proof (cases "(k, m) \<in> named_rows df")
  case True
  then obtain cs where "(k, cs) \<in> set (rows df)" and m: "m = row_dict (columns df) cs"
    by (auto simp: in_named_rows)
  then have "length cs = length (columns df)"
    using assms(1) by (simp add: rectangular_iff)
  then show ?thesis
    by (simp add: m dom_row_dict)
next
  case False
  then have "m = nan_row df"
    using assms(2) by (simp add: in_completed_rows)
  then show ?thesis
    by (simp add: dom_nan_row)
qed

lemma named_rows_completed:
  "(k, m) \<in> named_rows df \<longleftrightarrow> (k, m) \<in> completed_rows df \<and> k \<in> set (keys_of df)"
  by (auto simp: in_completed_rows named_rows_key)

lemma nan_row_merge_outer:
  assumes "set (columns L) \<inter> set (columns R) = {}"
  shows "nan_row (merge_outer L R) = nan_row L ++ nan_row R"
proof
  fix c
  have "columns (merge_outer L R) = columns L @ columns R"
    using assms by (simp add: merge_outer_def merge_columns_disjoint)
  then show "nan_row (merge_outer L R) c = (nan_row L ++ nan_row R) c"
    by (simp add: map_add_def nan_row_apply)
qed

lemma completed_rows_merge_outer:
  assumes rL: "rectangular L" and rR: "rectangular R"
    and dj: "set (columns L) \<inter> set (columns R) = {}"
  shows "(k, m) \<in> completed_rows (merge_outer L R) \<longleftrightarrow>
         (\<exists>m1 m2. (k, m1) \<in> completed_rows L \<and> (k, m2) \<in> completed_rows R \<and> m = m1 ++ m2)"
    (is "?lhs \<longleftrightarrow> ?rhs")
proof -
  let ?M = "merge_outer L R"
  have cols: "columns ?M = columns L @ columns R"
    using dj by (simp add: merge_outer_def merge_columns_disjoint)
  have lenL: "length vs = length (columns L)" if "(k, vs) \<in> set (rows L)" for k vs
    using rL that by (simp add: rectangular_iff)
  have lenR: "length ws = length (columns R)" if "(k, ws) \<in> set (rows R)" for k ws
    using rR that by (simp add: rectangular_iff)
  have lenN: "length (nan_cells df) = length (columns df)" for df :: "'a frame"
    by (simp add: nan_cells_def)
  have both: "row_dict (columns ?M) (vs @ ws) = row_dict (columns L) vs ++ row_dict (columns R) ws"
    if "length vs = length (columns L)" and "length ws = length (columns R)" for vs ws
    unfolding cols using that dj by (simp add: row_dict_append)
  show ?thesis
  proof
    assume ?lhs
    then consider (named) "(k, m) \<in> named_rows ?M"
      | (absent) "k \<notin> set (keys_of ?M)" "m = nan_row ?M"
      by (auto simp: in_completed_rows)
    then show ?rhs
    proof cases
      case named
      then obtain cs where cs: "(k, cs) \<in> set (rows ?M)" and m: "m = row_dict (columns ?M) cs"
        by (auto simp: in_named_rows)
      from cs consider
          (lr) vs ws where "(k, vs) \<in> set (rows L)" "(k, ws) \<in> set (rows R)" "cs = vs @ ws"
        | (l) vs where "(k, vs) \<in> set (rows L)" "k \<notin> set (keys_of R)" "cs = vs @ nan_cells R"
        | (r) ws where "(k, ws) \<in> set (rows R)" "k \<notin> set (keys_of L)" "cs = nan_cells L @ ws"
        unfolding in_rows_merge_outer by blast
      then show ?thesis
      proof cases
        case lr
        have "m = row_dict (columns L) vs ++ row_dict (columns R) ws"
          unfolding m lr(3) by (rule both) (use lr lenL lenR in auto)
        moreover have "(k, row_dict (columns L) vs) \<in> completed_rows L"
          using lr(1) by (auto simp: in_completed_rows in_named_rows)
        moreover have "(k, row_dict (columns R) ws) \<in> completed_rows R"
          using lr(2) by (auto simp: in_completed_rows in_named_rows)
        ultimately show ?thesis by blast
      next
        case l
        have "m = row_dict (columns L) vs ++ nan_row R"
          unfolding m l(3) nan_row_def by (rule both) (use l lenL lenN in auto)
        moreover have "(k, row_dict (columns L) vs) \<in> completed_rows L"
          using l(1) by (auto simp: in_completed_rows in_named_rows)
        moreover have "(k, nan_row R) \<in> completed_rows R"
          using l(2) by (simp add: in_completed_rows)
        ultimately show ?thesis by blast
      next
        case r
        have "m = nan_row L ++ row_dict (columns R) ws"
          unfolding m r(3) nan_row_def by (rule both) (use r lenR lenN in auto)
        moreover have "(k, nan_row L) \<in> completed_rows L"
          using r(2) by (simp add: in_completed_rows)
        moreover have "(k, row_dict (columns R) ws) \<in> completed_rows R"
          using r(1) by (auto simp: in_completed_rows in_named_rows)
        ultimately show ?thesis by blast
      qed
    next
      case absent
      then have "k \<notin> set (keys_of L)" and "k \<notin> set (keys_of R)"
        by (simp_all add: set_keys_merge_outer)
      then have "(k, nan_row L) \<in> completed_rows L" and "(k, nan_row R) \<in> completed_rows R"
        by (simp_all add: in_completed_rows)
      moreover have "m = nan_row L ++ nan_row R"
        using absent(2) dj by (simp add: nan_row_merge_outer)
      ultimately show ?thesis by blast
    qed
  next
    assume ?rhs
    then obtain m1 m2 where m1: "(k, m1) \<in> completed_rows L"
      and m2: "(k, m2) \<in> completed_rows R" and m: "m = m1 ++ m2"
      by blast
    show ?lhs
    proof (cases "k \<in> set (keys_of L)")
      case inL: True
      then obtain vs where vs: "(k, vs) \<in> set (rows L)" and m1': "m1 = row_dict (columns L) vs"
        using m1 by (auto simp: in_completed_rows in_named_rows)
      show ?thesis
      proof (cases "k \<in> set (keys_of R)")
        case True
        then obtain ws where ws: "(k, ws) \<in> set (rows R)" and m2': "m2 = row_dict (columns R) ws"
          using m2 by (auto simp: in_completed_rows in_named_rows)
        have "(k, vs @ ws) \<in> set (rows ?M)"
          unfolding in_rows_merge_outer using vs ws by blast
        moreover have "m = row_dict (columns ?M) (vs @ ws)"
          unfolding m m1' m2' by (rule both [symmetric]) (use vs ws lenL lenR in auto)
        ultimately show ?thesis
          unfolding in_completed_rows in_named_rows by blast
      next
        case False
        then have m2': "m2 = nan_row R"
          using m2 by (auto simp: in_completed_rows dest: named_rows_key)
        have "(k, vs @ nan_cells R) \<in> set (rows ?M)"
          unfolding in_rows_merge_outer using vs False by blast
        moreover have "m = row_dict (columns ?M) (vs @ nan_cells R)"
          unfolding m m1' m2' nan_row_def by (rule both [symmetric]) (use vs lenL lenN in auto)
        ultimately show ?thesis
          unfolding in_completed_rows in_named_rows by blast
      qed
    next
      case notL: False
      then have m1': "m1 = nan_row L"
        using m1 by (auto simp: in_completed_rows dest: named_rows_key)
      show ?thesis
      proof (cases "k \<in> set (keys_of R)")
        case True
        then obtain ws where ws: "(k, ws) \<in> set (rows R)" and m2': "m2 = row_dict (columns R) ws"
          using m2 by (auto simp: in_completed_rows in_named_rows)
        have "(k, nan_cells L @ ws) \<in> set (rows ?M)"
          unfolding in_rows_merge_outer using ws notL by blast
        moreover have "m = row_dict (columns ?M) (nan_cells L @ ws)"
          unfolding m m1' m2' nan_row_def by (rule both [symmetric]) (use ws lenR lenN in auto)
        ultimately show ?thesis
          unfolding in_completed_rows in_named_rows by blast
      next
        case False
        then have m2': "m2 = nan_row R"
          using m2 by (auto simp: in_completed_rows dest: named_rows_key)
        have "k \<notin> set (keys_of ?M)"
          using notL False by (simp add: set_keys_merge_outer)
        moreover have "m = nan_row ?M"
          unfolding m m1' m2' using dj by (simp add: nan_row_merge_outer)
        ultimately show ?thesis
          by (simp add: in_completed_rows)
      qed
    qed
  qed
qed

subsection \<open>Maps with disjoint domains\<close>

lemma restrict_map_idem: "dom m \<subseteq> A \<Longrightarrow> m |` A = m"
proof (rule ext)
  fix x assume "dom m \<subseteq> A"
  then show "(m |` A) x = m x"
    by (cases "m x") (auto simp: restrict_map_def)
qed

lemma restrict_restrict_subset: "B \<subseteq> A \<Longrightarrow> (m |` A) |` B = m |` B"
  by (simp add: Int_absorb1)

lemma restrict_map_add_left: "dom m2 \<inter> B = {} \<Longrightarrow> (m1 ++ m2) |` B = m1 |` B"
proof (rule ext)
  fix x assume d: "dom m2 \<inter> B = {}"
  show "((m1 ++ m2) |` B) x = (m1 |` B) x"
  proof (cases "x \<in> B")
    case True
    then have "m2 x = None" using d by auto
    then show ?thesis using True by (simp add: map_add_def)
  next
    case False
    then show ?thesis by simp
  qed
qed

lemma restrict_map_add_right: "dom m2 = B \<Longrightarrow> (m1 ++ m2) |` B = m2"
proof (rule ext)
  fix x assume d: "dom m2 = B"
  show "((m1 ++ m2) |` B) x = m2 x"
  proof (cases "x \<in> B")
    case True
    then obtain v where "m2 x = Some v" using d by auto
    then show ?thesis using True by (simp add: map_add_def)
  next
    case False
    then have "m2 x = None" using d by auto
    then show ?thesis using False by simp
  qed
qed

lemma map_add_restrict_split:
  assumes "dom m = A \<union> B" and "A \<inter> B = {}"
  shows "m = m |` A ++ m |` B"
proof (rule ext)
  fix x
  show "m x = (m |` A ++ m |` B) x"
  proof (cases "x \<in> B")
    case True
    then have "x \<notin> A" using assms(2) by auto
    then show ?thesis using True by (cases "m x") (simp_all add: map_add_def)
  next
    case False
    show ?thesis
    proof (cases "x \<in> A")
      case True
      then show ?thesis using False by (simp add: map_add_def)
    next
      case False
      then have "m x = None" using \<open>x \<notin> B\<close> assms(1) by auto
      then show ?thesis using False \<open>x \<notin> B\<close> by (simp add: map_add_def)
    qed
  qed
qed

subsection \<open>The fold of outer joins\<close>

lemma completed_rows_merge_step:
  assumes rM': "rectangular M'" and rF: "rectangular F"
    and dj: "set (columns M') \<inter> set (columns F) = {}"
    and sub: "\<And>G. G \<in> S \<Longrightarrow> set (columns G) \<subseteq> set (columns M')"
    and comp': "\<And>k m. (k, m) \<in> completed_rows M' \<longleftrightarrow>
          dom m = set (columns M') \<and> (\<forall>G\<in>S. (k, m |` set (columns G)) \<in> completed_rows G)"
  shows "(k, m) \<in> completed_rows (merge_outer M' F) \<longleftrightarrow>
          dom m = set (columns M') \<union> set (columns F)
          \<and> (\<forall>G\<in>insert F S. (k, m |` set (columns G)) \<in> completed_rows G)"
    (is "?lhs \<longleftrightarrow> ?rhs")
proof
  assume ?lhs
  then obtain m1 m2 where m1: "(k, m1) \<in> completed_rows M'"
    and m2: "(k, m2) \<in> completed_rows F" and m: "m = m1 ++ m2"
    using completed_rows_merge_outer [OF rM' rF dj, of k m] by blast
  have d1: "dom m1 = set (columns M')"
    using rM' m1 by (rule dom_completed_row)
  have d2: "dom m2 = set (columns F)"
    using rF m2 by (rule dom_completed_row)
  have dm: "dom m = set (columns M') \<union> set (columns F)"
    unfolding m dom_map_add d1 d2 by (rule Un_commute)
  have old: "(k, m |` set (columns G)) \<in> completed_rows G" if G: "G \<in> S" for G
  proof -
    have "dom m2 \<inter> set (columns G) = {}"
      using sub [OF G] dj d2 by blast
    then have "m |` set (columns G) = m1 |` set (columns G)"
      unfolding m by (rule restrict_map_add_left)
    moreover have "(k, m1 |` set (columns G)) \<in> completed_rows G"
      using m1 G comp' [of k m1] by blast
    ultimately show ?thesis
      by simp
  qed
  have new: "(k, m |` set (columns F)) \<in> completed_rows F"
    unfolding m restrict_map_add_right [OF d2] by (rule m2)
  show ?rhs
    using dm old new by blast
next
  assume r: ?rhs
  then have dm: "dom m = set (columns M') \<union> set (columns F)"
    by blast
  from r have new: "(k, m |` set (columns F)) \<in> completed_rows F"
    by blast
  from r have old: "\<And>G. G \<in> S \<Longrightarrow> (k, m |` set (columns G)) \<in> completed_rows G"
    by blast
  let ?m1 = "m |` set (columns M')"
  have d1: "dom ?m1 = set (columns M')"
    unfolding dom_restrict dm by blast
  have "(k, ?m1 |` set (columns G)) \<in> completed_rows G" if G: "G \<in> S" for G
  proof -
    have "?m1 |` set (columns G) = m |` set (columns G)"
      using sub [OF G] by (rule restrict_restrict_subset)
    then show ?thesis
      using old [OF G] by simp
  qed
  with d1 have m1: "(k, ?m1) \<in> completed_rows M'"
    using comp' [of k ?m1] by blast
  have "m = ?m1 ++ m |` set (columns F)"
    using dm dj by (rule map_add_restrict_split)
  with m1 new show ?lhs
    using completed_rows_merge_outer [OF rM' rF dj, of k m] by blast
qed

lemma set_keys_foldl_merge_outer:
  "set (keys_of (foldl merge_outer F0 Fs)) = (\<Union>F\<in>set (F0 # Fs). set (keys_of F))"
proof (induction Fs rule: rev_induct)
  case Nil
  show ?case by simp
next
  case (snoc F Fs)
  have "set (keys_of (foldl merge_outer F0 (Fs @ [F]))) =
        set (keys_of (foldl merge_outer F0 Fs)) \<union> set (keys_of F)"
    by (simp add: set_keys_merge_outer)
  also have "\<dots> = (\<Union>G\<in>set (F0 # Fs). set (keys_of G)) \<union> set (keys_of F)"
    by (simp only: snoc.IH)
  also have "\<dots> = (\<Union>G\<in>set (F0 # Fs @ [F]). set (keys_of G))"
    by auto
  finally show ?case .
qed

lemma shape_foldl_merge_outer:
  assumes "list_all rectangular (F0 # Fs)"
    and "distinct (concat (map columns (F0 # Fs)))"
  shows "rectangular (foldl merge_outer F0 Fs)
    \<and> columns (foldl merge_outer F0 Fs) = concat (map columns (F0 # Fs))"
  using assms
proof (induction Fs rule: rev_induct)
  case Nil
  then show ?case by simp
next
  case (snoc F Fs)
  let ?M' = "foldl merge_outer F0 Fs"
  from snoc.prems(1) have rF: "rectangular F" and rects: "list_all rectangular (F0 # Fs)"
    by simp_all
  have eq: "concat (map columns (F0 # Fs @ [F])) = concat (map columns (F0 # Fs)) @ columns F"
    by simp
  from snoc.prems(2) have dist: "distinct (concat (map columns (F0 # Fs)))"
    and dj0: "set (concat (map columns (F0 # Fs))) \<inter> set (columns F) = {}"
    unfolding eq distinct_append by blast+
  from snoc.IH [OF rects dist] have rM': "rectangular ?M'"
    and cM': "columns ?M' = concat (map columns (F0 # Fs))"
    by blast+
  have "rectangular (merge_outer ?M' F)"
    using rM' rF by (rule rectangular_merge_outer)
  moreover have "columns (merge_outer ?M' F) = concat (map columns (F0 # Fs)) @ columns F"
    using dj0 by (simp add: merge_outer_def merge_columns_disjoint cM')
  ultimately show ?case
    unfolding eq by simp
qed

lemma completed_rows_foldl_merge_outer:
  assumes "list_all rectangular (F0 # Fs)"
    and "distinct (concat (map columns (F0 # Fs)))"
  shows "(k, m) \<in> completed_rows (foldl merge_outer F0 Fs) \<longleftrightarrow>
          dom m = set (concat (map columns (F0 # Fs)))
          \<and> (\<forall>F\<in>set (F0 # Fs). (k, m |` set (columns F)) \<in> completed_rows F)"
  using assms
proof (induction Fs arbitrary: k m rule: rev_induct)
  case Nil
  then have rect: "rectangular F0"
    by simp
  show ?case
  proof
    assume mem: "(k, m) \<in> completed_rows (foldl merge_outer F0 [])"
    then have d: "dom m = set (columns F0)"
      using dom_completed_row [OF rect, of k m] by simp
    then have "m |` set (columns F0) = m"
      by (simp add: restrict_map_idem)
    then show "dom m = set (concat (map columns [F0]))
        \<and> (\<forall>F\<in>set [F0]. (k, m |` set (columns F)) \<in> completed_rows F)"
      using mem d by simp
  next
    assume r: "dom m = set (concat (map columns [F0]))
        \<and> (\<forall>F\<in>set [F0]. (k, m |` set (columns F)) \<in> completed_rows F)"
    then have "m |` set (columns F0) = m"
      by (simp add: restrict_map_idem)
    then show "(k, m) \<in> completed_rows (foldl merge_outer F0 [])"
      using r by simp
  qed
next
  case (snoc F Fs)
  let ?M' = "foldl merge_outer F0 Fs"
  from snoc.prems(1) have rF: "rectangular F" and rects: "list_all rectangular (F0 # Fs)"
    by simp_all
  have eq: "concat (map columns (F0 # Fs @ [F])) = concat (map columns (F0 # Fs)) @ columns F"
    by simp
  from snoc.prems(2) have dist: "distinct (concat (map columns (F0 # Fs)))"
    and dj0: "set (concat (map columns (F0 # Fs))) \<inter> set (columns F) = {}"
    unfolding eq distinct_append by blast+
  from shape_foldl_merge_outer [OF rects dist] have rM': "rectangular ?M'"
    and cM': "columns ?M' = concat (map columns (F0 # Fs))"
    by blast+
  have dj: "set (columns ?M') \<inter> set (columns F) = {}"
    using dj0 by (simp only: cM')
  have sub: "set (columns G) \<subseteq> set (columns ?M')" if "G \<in> set (F0 # Fs)" for G
    unfolding cM' using that by auto
  have comp': "(k, m) \<in> completed_rows ?M' \<longleftrightarrow>
          dom m = set (columns ?M')
          \<and> (\<forall>G\<in>set (F0 # Fs). (k, m |` set (columns G)) \<in> completed_rows G)" for k m
    unfolding cM' by (rule snoc.IH [OF rects dist])
  have step: "(k, m) \<in> completed_rows (merge_outer ?M' F) \<longleftrightarrow>
          dom m = set (columns ?M') \<union> set (columns F)
          \<and> (\<forall>G\<in>insert F (set (F0 # Fs)). (k, m |` set (columns G)) \<in> completed_rows G)"
    using rM' rF dj sub comp' by (rule completed_rows_merge_step)
  have eq1: "set (columns ?M') \<union> set (columns F) = set (concat (map columns (F0 # Fs @ [F])))"
    unfolding eq cM' by auto
  have eq2: "insert F (set (F0 # Fs)) = set (F0 # Fs @ [F])"
    by auto
  have fold: "foldl merge_outer F0 (Fs @ [F]) = merge_outer ?M' F"
    by simp
  show ?case
    unfolding fold using step unfolding eq1 eq2 .
qed

subsection \<open>Order of the merge, completeness and uniqueness of the keys\<close>

lemma distinct_concat_mset:
  assumes "mset ys = mset xs"
  shows "distinct (concat (map f ys)) \<longleftrightarrow> distinct (concat (map f xs))"
proof -
  have "mset (concat (map f zs)) = sum_mset (image_mset (\<lambda>z. mset (f z)) (mset zs))" for zs
    by (induction zs) simp_all
  then have "mset (concat (map f ys)) = mset (concat (map f xs))"
    using assms by simp
  then show ?thesis
    by (rule mset_eq_imp_distinct_iff)
qed

lemma named_rows_foldl_perm:
  assumes rect: "list_all rectangular (F0 # Fs)"
    and dist: "distinct (concat (map columns (F0 # Fs)))"
    and rect': "list_all rectangular (G0 # Gs)"
    and dist': "distinct (concat (map columns (G0 # Gs)))"
    and same: "set (G0 # Gs) = set (F0 # Fs)"
  shows "named_rows (foldl merge_outer G0 Gs) = named_rows (foldl merge_outer F0 Fs)"
proof -
  let ?M = "foldl merge_outer F0 Fs" and ?M' = "foldl merge_outer G0 Gs"
  have keys: "set (keys_of ?M') = set (keys_of ?M)"
    unfolding set_keys_foldl_merge_outer same ..
  have cols: "set (concat (map columns (G0 # Gs))) = set (concat (map columns (F0 # Fs)))"
    unfolding set_concat set_map same ..
  have comp: "(k, m) \<in> completed_rows ?M' \<longleftrightarrow> (k, m) \<in> completed_rows ?M" for k m
    unfolding completed_rows_foldl_merge_outer [OF rect dist]
      completed_rows_foldl_merge_outer [OF rect' dist'] cols same ..
  have "(k, m) \<in> named_rows ?M' \<longleftrightarrow> (k, m) \<in> named_rows ?M" for k m
    unfolding named_rows_completed keys comp ..
  then show ?thesis
    by auto
qed

text \<open>
  Claim C8. For rectangular tables whose column names are pairwise distinct (as the
  per-metric tables are: each has the column of its metric, and the keys of
  \<^verbatim>\<open>METRICS\<close> are distinct), the fold of outer joins over any permutation of the
  tables gives the same set of rows, each row read by column name, and the same set
  of columns. Keys may repeat within a table.
\<close>

theorem merge_order_does_not_matter:
  assumes ne: "frames \<noteq> []"
    and perm: "mset frames' = mset frames"
    and rect: "list_all rectangular frames"
    and dist: "distinct (concat (map columns frames))"
  shows "\<exists>merged merged'.
           reduce merge_outer frames = Inr merged
         \<and> reduce merge_outer frames' = Inr merged'
         \<and> named_rows merged' = named_rows merged
         \<and> set (columns merged') = set (columns merged)"
proof -
  from ne obtain F0 Fs where f: "frames = F0 # Fs"
    by (cases frames) auto
  from perm ne have "frames' \<noteq> []"
    by auto
  then obtain G0 Gs where g: "frames' = G0 # Gs"
    by (cases frames') auto
  have same: "set (G0 # Gs) = set (F0 # Fs)"
    using perm [THEN mset_eq_setD] by (simp only: f g)
  have rect': "list_all rectangular (G0 # Gs)"
    using rect same unfolding f list_all_iff by blast
  have dist': "distinct (concat (map columns (G0 # Gs)))"
    using dist distinct_concat_mset [OF perm, of columns] by (simp only: f g)
  have r: "list_all rectangular (F0 # Fs)" and d: "distinct (concat (map columns (F0 # Fs)))"
    using rect dist by (simp_all only: f)
  have "named_rows (foldl merge_outer G0 Gs) = named_rows (foldl merge_outer F0 Fs)"
    using r d rect' dist' same by (rule named_rows_foldl_perm)
  moreover have "set (columns (foldl merge_outer G0 Gs)) = set (columns (foldl merge_outer F0 Fs))"
    using shape_foldl_merge_outer [OF r d] shape_foldl_merge_outer [OF rect' dist'] same
    by (simp only: set_concat set_map)
  ultimately show ?thesis
    by (simp add: f g)
qed

lemmas merge_eval = merge_outer_def left_rows_def right_only_rows_def matches_def keys_of_def
  nan_cells_def merge_columns_def

lemma merge_farms_beef: "reduce merge_outer [farms_frame, beef_frame] = Inr farms_beef_merged"
  by (simp add: merge_eval farms_frame_def beef_frame_def farms_beef_merged_def)

lemma merge_beef_farms: "reduce merge_outer [beef_frame, farms_frame] = Inr beef_farms_merged"
  by (simp add: merge_eval farms_frame_def beef_frame_def beef_farms_merged_def)

lemma merge_farms_beef_twice:
  "reduce merge_outer [farms_frame, beef_frame_twice] = Inr farms_beef_twice_merged"
  by (simp add: merge_eval farms_frame_def beef_frame_twice_def farms_beef_twice_merged_def)

lemma sample_frames_ok:
  "list_all rectangular [farms_frame, beef_frame]"
  "distinct (concat (map columns [farms_frame, beef_frame]))"
  "list_all (\<lambda>F. distinct (keys_of F)) [farms_frame, beef_frame]"
  by (simp_all add: rectangular_def farms_frame_def beef_frame_def keys_of_def)

theorem merge_order_does_not_matter_witness:
  "[farms_frame, beef_frame] \<noteq> []
   \<and> mset [beef_frame, farms_frame] = mset [farms_frame, beef_frame]
   \<and> list_all rectangular [farms_frame, beef_frame]
   \<and> distinct (concat (map columns [farms_frame, beef_frame]))
   \<and> reduce merge_outer [farms_frame, beef_frame] = Inr farms_beef_merged
   \<and> reduce merge_outer [beef_frame, farms_frame] = Inr beef_farms_merged
   \<and> named_rows beef_farms_merged = named_rows farms_beef_merged"
proof -
  have ne: "[farms_frame, beef_frame] \<noteq> []"
    by simp
  have perm: "mset [beef_frame, farms_frame] = mset [farms_frame, beef_frame]"
    by simp
  from merge_order_does_not_matter [OF ne perm sample_frames_ok(1,2)]
  have "named_rows beef_farms_merged = named_rows farms_beef_merged"
    unfolding merge_farms_beef merge_beef_farms by simp
  then show ?thesis
    using perm sample_frames_ok(1,2) merge_farms_beef merge_beef_farms by simp
qed

lemma count_list_append: "count_list (xs @ ys) k = count_list xs k + count_list ys k"
  by (induction xs) simp_all

lemma count_list_filter: "count_list (filter P xs) k = (if P k then count_list xs k else 0)"
  by (induction xs) simp_all

lemma count_list_replicate: "count_list (replicate n x) k = (if x = k then n else 0)"
  by (induction n) auto

lemma count_list_map_fst_filter:
  "length (filter (\<lambda>r. fst r = k) rs) = count_list (map fst rs) k"
  by (induction rs) simp_all

lemma length_matches: "length (matches R k) = count_list (keys_of R) k"
  by (simp add: matches_def keys_of_def count_list_map_fst_filter)

lemma count_list_pos_iff: "0 < count_list xs k \<longleftrightarrow> k \<in> set xs"
  using count_list_0_iff [of xs k] by auto

lemma distinct_count_list: "distinct xs \<longleftrightarrow> (\<forall>k. count_list xs k \<le> 1)"
proof (induction xs)
  case Nil
  show ?case by simp
next
  case (Cons x xs)
  show ?case
  proof
    assume d: "distinct (x # xs)"
    then have "count_list xs x = 0"
      by (simp add: count_list_0_iff)
    moreover from d Cons have "\<forall>k. count_list xs k \<le> 1"
      by simp
    ultimately show "\<forall>k. count_list (x # xs) k \<le> 1"
      by auto
  next
    assume c: "\<forall>k. count_list (x # xs) k \<le> 1"
    then have "count_list (x # xs) x \<le> 1"
      by blast
    then have "x \<notin> set xs"
      using count_list_0_iff [of xs x] by simp
    moreover have "\<forall>k. count_list xs k \<le> 1"
    proof
      fix k
      have "count_list xs k \<le> count_list (x # xs) k"
        by simp
      also have "\<dots> \<le> 1"
        using c by blast
      finally show "count_list xs k \<le> 1" .
    qed
    ultimately show "distinct (x # xs)"
      using Cons by simp
  qed
qed

lemma keys_left_row:
  "map fst (case matches R k' of [] \<Rightarrow> [(k', vs @ nan_cells R)]
                                | ms \<Rightarrow> map (\<lambda>ws. (k', vs @ ws)) ms) =
   replicate (max 1 (length (matches R k'))) k'"
  by (cases "matches R k'") (simp_all add: comp_def map_replicate_const)

lemma count_left_rows:
  "count_list (map fst (left_rows L R)) k =
     count_list (keys_of L) k * max 1 (count_list (keys_of R) k)"
proof -
  have "count_list (map fst (concat (map (\<lambda>(k', vs).
            case matches R k' of [] \<Rightarrow> [(k', vs @ nan_cells R)]
            | ms \<Rightarrow> map (\<lambda>ws. (k', vs @ ws)) ms) rs))) k =
        count_list (map fst rs) k * max 1 (count_list (keys_of R) k)" for rs
  proof (induction rs)
    case Nil
    show ?case by simp
  next
    case (Cons r rs)
    obtain k' vs where r: "r = (k', vs)"
      by (cases r)
    show ?case
      using Cons
      by (simp add: r count_list_append keys_left_row count_list_replicate length_matches)
  qed
  then show ?thesis
    by (simp add: left_rows_def keys_of_def)
qed

lemma count_keys_merge_outer:
  "count_list (keys_of (merge_outer L R)) k =
     (if k \<in> set (keys_of L) \<union> set (keys_of R)
      then max 1 (count_list (keys_of L) k) * max 1 (count_list (keys_of R) k)
      else 0)"
proof -
  have "count_list (keys_of (merge_outer L R)) k =
        count_list (keys_of L) k * max 1 (count_list (keys_of R) k)
        + (if k \<in> set (keys_of L) then 0 else count_list (keys_of R) k)"
    using count_left_rows [of L R k] keys_right_only_rows [of L R]
    by (simp add: merge_outer_def keys_of_def count_list_append count_list_filter)
  then show ?thesis
    using count_list_0_iff [of "keys_of L" k] count_list_0_iff [of "keys_of R" k]
      count_list_pos_iff [of "keys_of L" k] count_list_pos_iff [of "keys_of R" k]
    by (auto simp: max_def)
qed

lemma prod_max_ge1: "1 \<le> prod_list (map (\<lambda>F. max 1 (f F)) Fs)" for f :: "'a \<Rightarrow> nat"
  by (induction Fs) (simp_all add: Suc_le_eq)

lemma prod_max_eq1:
  "(\<And>F. F \<in> set Fs \<Longrightarrow> f F = 0) \<Longrightarrow> prod_list (map (\<lambda>F. max 1 (f F)) Fs) = 1"
  for f :: "'a \<Rightarrow> nat"
  by (induction Fs) simp_all

lemma prod_max_le1_iff:
  "prod_list (map (\<lambda>F. max 1 (f F)) Fs) \<le> 1 \<longleftrightarrow> (\<forall>F\<in>set Fs. f F \<le> 1)"
  for f :: "'a \<Rightarrow> nat"
proof (induction Fs)
  case Nil
  show ?case by simp
next
  case (Cons F Fs)
  let ?p = "prod_list (map (\<lambda>F. max 1 (f F)) Fs)"
  have p: "1 \<le> ?p"
    by (rule prod_max_ge1)
  have "max 1 (f F) * ?p \<le> 1 \<longleftrightarrow> f F \<le> 1 \<and> ?p \<le> 1"
  proof
    assume le: "max 1 (f F) * ?p \<le> 1"
    have "max 1 (f F) * 1 \<le> max 1 (f F) * ?p"
      using p by (rule mult_le_mono2)
    then have "max 1 (f F) \<le> max 1 (f F) * ?p"
      by (simp only: mult_1_right)
    then have "max 1 (f F) \<le> 1"
      using le by (rule le_trans)
    moreover have "1 * ?p \<le> max 1 (f F) * ?p"
      by (rule mult_le_mono1) (rule max.cobounded1)
    then have "?p \<le> max 1 (f F) * ?p"
      by (simp only: mult_1)
    then have "?p \<le> 1"
      using le by (rule le_trans)
    ultimately show "f F \<le> 1 \<and> ?p \<le> 1"
      by simp
  next
    assume "f F \<le> 1 \<and> ?p \<le> 1"
    then have "max 1 (f F) = 1" and "?p = 1"
      using p by (simp_all add: max_def)
    then show "max 1 (f F) * ?p \<le> 1"
      by simp
  qed
  then show ?case
    using Cons by simp
qed

lemma count_keys_foldl_merge_outer:
  "count_list (keys_of (foldl merge_outer F0 Fs)) k =
     (if k \<in> (\<Union>F\<in>set (F0 # Fs). set (keys_of F))
      then prod_list (map (\<lambda>F. max 1 (count_list (keys_of F) k)) (F0 # Fs))
      else 0)"
proof (induction Fs rule: rev_induct)
  case Nil
  show ?case
    using count_list_0_iff [of "keys_of F0" k] count_list_pos_iff [of "keys_of F0" k]
    by (auto simp: max_def)
next
  case (snoc F Fs)
  let ?M' = "foldl merge_outer F0 Fs"
  let ?U' = "\<Union>G\<in>set (F0 # Fs). set (keys_of G)"
  let ?p' = "prod_list (map (\<lambda>F. max 1 (count_list (keys_of F) k)) (F0 # Fs))"
  have keys': "set (keys_of ?M') = ?U'"
    by (rule set_keys_foldl_merge_outer)
  have "max 1 (count_list (keys_of ?M') k) = ?p'"
  proof (cases "k \<in> ?U'")
    case True
    then have "count_list (keys_of ?M') k = ?p'"
      using snoc.IH by simp
    moreover have "1 \<le> ?p'"
      by (rule prod_max_ge1)
    ultimately show ?thesis
      by simp
  next
    case False
    then have "count_list (keys_of ?M') k = 0"
      using snoc.IH by simp
    moreover have "?p' = 1"
      by (rule prod_max_eq1) (use False in \<open>auto simp: count_list_0_iff\<close>)
    ultimately show ?thesis
      by simp
  qed
  then have "count_list (keys_of (merge_outer ?M' F)) k =
        (if k \<in> ?U' \<union> set (keys_of F) then ?p' * max 1 (count_list (keys_of F) k) else 0)"
    by (simp only: count_keys_merge_outer keys')
  moreover have "?U' \<union> set (keys_of F) = (\<Union>G\<in>set (F0 # Fs @ [F]). set (keys_of G))"
    by auto
  moreover have "?p' * max 1 (count_list (keys_of F) k) =
      prod_list (map (\<lambda>F. max 1 (count_list (keys_of F) k)) (F0 # Fs @ [F]))"
    by simp
  ultimately show ?case
    by (simp only: foldl_append foldl.simps)
qed

lemma distinct_keys_foldl_iff:
  "distinct (keys_of (foldl merge_outer F0 Fs)) \<longleftrightarrow> (\<forall>F\<in>set (F0 # Fs). distinct (keys_of F))"
proof -
  let ?U = "\<Union>F\<in>set (F0 # Fs). set (keys_of F)"
  have one: "count_list (keys_of (foldl merge_outer F0 Fs)) k \<le> 1 \<longleftrightarrow>
        (k \<in> ?U \<longrightarrow> (\<forall>F\<in>set (F0 # Fs). count_list (keys_of F) k \<le> 1))" for k
  proof (cases "k \<in> ?U")
    case True
    then have "count_list (keys_of (foldl merge_outer F0 Fs)) k =
        prod_list (map (\<lambda>F. max 1 (count_list (keys_of F) k)) (F0 # Fs))"
      by (simp only: count_keys_foldl_merge_outer if_True)
    then show ?thesis
      using True by (simp only: prod_max_le1_iff simp_thms)
  next
    case False
    then have "count_list (keys_of (foldl merge_outer F0 Fs)) k = 0"
      by (simp only: count_keys_foldl_merge_outer if_False)
    then show ?thesis
      using False by simp
  qed
  have "distinct (keys_of (foldl merge_outer F0 Fs)) \<longleftrightarrow>
        (\<forall>k. k \<in> ?U \<longrightarrow> (\<forall>F\<in>set (F0 # Fs). count_list (keys_of F) k \<le> 1))"
    by (simp only: distinct_count_list one)
  also have "\<dots> \<longleftrightarrow> (\<forall>F\<in>set (F0 # Fs). \<forall>k. count_list (keys_of F) k \<le> 1)"
  proof (intro iffI ballI allI impI)
    fix F k
    assume a: "\<forall>k. k \<in> ?U \<longrightarrow> (\<forall>F\<in>set (F0 # Fs). count_list (keys_of F) k \<le> 1)"
      and F: "F \<in> set (F0 # Fs)"
    show "count_list (keys_of F) k \<le> 1"
    proof (cases "k \<in> set (keys_of F)")
      case True
      then have "k \<in> ?U"
        using F by blast
      then show ?thesis
        using a F by blast
    next
      case False
      then show ?thesis
        by (simp add: count_list_0_iff)
    qed
  next
    fix k F
    assume "\<forall>F\<in>set (F0 # Fs). \<forall>k. count_list (keys_of F) k \<le> 1" and "F \<in> set (F0 # Fs)"
    then show "count_list (keys_of F) k \<le> 1"
      by blast
  qed
  finally show ?thesis
    by (simp only: distinct_count_list)
qed

text \<open>
  Claim C7, amended. For rectangular tables with pairwise distinct column names, the
  fold of outer joins has exactly the keys of the input tables; a key occurs in it as
  often as the product, over the tables, of its number of occurrences in the table,
  a table without the key counting as one; so the keys of the merged table are
  unique exactly when they are unique in every input table. In the row of a key, the
  columns of a table that has the key carry a row of that table, and the columns of a
  table that lacks the key carry NaN: no row is dropped.
\<close>

theorem merge_keys_complete_and_unique:
  assumes ne: "frames \<noteq> []"
    and rect: "list_all rectangular frames"
    and dist: "distinct (concat (map columns frames))"
  shows "\<exists>merged.
           reduce merge_outer frames = Inr merged
         \<and> set (keys_of merged) = (\<Union>F\<in>set frames. set (keys_of F))
         \<and> (\<forall>k. count_list (keys_of merged) k =
                  (if k \<in> (\<Union>F\<in>set frames. set (keys_of F))
                   then prod_list (map (\<lambda>F. max 1 (count_list (keys_of F) k)) frames)
                   else 0))
         \<and> (distinct (keys_of merged) \<longleftrightarrow> (\<forall>F\<in>set frames. distinct (keys_of F)))
         \<and> (\<forall>(k, m)\<in>named_rows merged. \<forall>F\<in>set frames.
               if k \<in> set (keys_of F) then (k, m |` set (columns F)) \<in> named_rows F
               else (\<forall>c\<in>set (columns F). m c = Some NaN))"
proof -
  from ne obtain F0 Fs where f: "frames = F0 # Fs"
    by (cases frames) auto
  let ?M = "foldl merge_outer F0 Fs"
  have r: "list_all rectangular (F0 # Fs)" and d: "distinct (concat (map columns (F0 # Fs)))"
    using rect dist by (simp_all only: f)
  have cells: "if k \<in> set (keys_of F) then (k, m |` set (columns F)) \<in> named_rows F
               else (\<forall>c\<in>set (columns F). m c = Some NaN)"
    if km: "(k, m) \<in> named_rows ?M" and F: "F \<in> set frames" for k m F
  proof -
    from km have "(k, m) \<in> completed_rows ?M"
      by (simp add: named_rows_completed)
    then have c: "(k, m |` set (columns F)) \<in> completed_rows F"
      unfolding completed_rows_foldl_merge_outer [OF r d] using F f by blast
    show ?thesis
    proof (cases "k \<in> set (keys_of F)")
      case True
      then show ?thesis
        using c by (simp add: named_rows_completed)
    next
      case False
      then have eq: "m |` set (columns F) = nan_row F"
        using c by (auto simp: in_completed_rows dest: named_rows_key)
      have "m c = Some NaN" if "c \<in> set (columns F)" for c
      proof -
        have "m c = (m |` set (columns F)) c"
          using that by simp
        then show ?thesis
          using that by (simp add: eq nan_row_apply)
      qed
      then show ?thesis
        using False by simp
    qed
  qed
  show ?thesis
  proof (intro exI conjI allI)
    show "reduce merge_outer frames = Inr ?M"
      by (simp add: f)
    show "set (keys_of ?M) = (\<Union>F\<in>set frames. set (keys_of F))"
      unfolding f by (rule set_keys_foldl_merge_outer)
    show "count_list (keys_of ?M) k =
            (if k \<in> (\<Union>F\<in>set frames. set (keys_of F))
             then prod_list (map (\<lambda>F. max 1 (count_list (keys_of F) k)) frames)
             else 0)" for k
      unfolding f by (rule count_keys_foldl_merge_outer)
    show "distinct (keys_of ?M) \<longleftrightarrow> (\<forall>F\<in>set frames. distinct (keys_of F))"
      unfolding f by (rule distinct_keys_foldl_iff)
    show "\<forall>(k, m)\<in>named_rows ?M. \<forall>F\<in>set frames.
               if k \<in> set (keys_of F) then (k, m |` set (columns F)) \<in> named_rows F
               else (\<forall>c\<in>set (columns F). m c = Some NaN)"
      using cells by blast
  qed
qed

lemma sample_twice_ok:
  "list_all rectangular [farms_frame, beef_frame_twice]"
  "distinct (concat (map columns [farms_frame, beef_frame_twice]))"
  by (simp_all add: rectangular_def farms_frame_def beef_frame_twice_def)

theorem merge_keys_complete_and_unique_witness:
  "[farms_frame, beef_frame] \<noteq> []
   \<and> list_all rectangular [farms_frame, beef_frame]
   \<and> distinct (concat (map columns [farms_frame, beef_frame]))
   \<and> reduce merge_outer [farms_frame, beef_frame] = Inr farms_beef_merged
   \<and> set (keys_of farms_beef_merged) = set (keys_of farms_frame) \<union> set (keys_of beef_frame)
   \<and> distinct (keys_of farms_beef_merged)
   \<and> reduce merge_outer [farms_frame, beef_frame_twice] = Inr farms_beef_twice_merged
   \<and> count_list (keys_of farms_beef_twice_merged) lane_key = 1 * 2"
proof -
  have ne: "[farms_frame, beef_frame] \<noteq> []" and ne2: "[farms_frame, beef_frame_twice] \<noteq> []"
    by simp_all
  from merge_keys_complete_and_unique [OF ne sample_frames_ok(1,2)]
  have a: "set (keys_of farms_beef_merged) = set (keys_of farms_frame) \<union> set (keys_of beef_frame)
      \<and> (distinct (keys_of farms_beef_merged) \<longleftrightarrow>
           distinct (keys_of farms_frame) \<and> distinct (keys_of beef_frame))"
    unfolding merge_farms_beef by auto
  from merge_keys_complete_and_unique [OF ne2 sample_twice_ok]
  have "\<forall>k. count_list (keys_of farms_beef_twice_merged) k =
            (if k \<in> (\<Union>F\<in>set [farms_frame, beef_frame_twice]. set (keys_of F))
             then prod_list (map (\<lambda>F. max 1 (count_list (keys_of F) k)) [farms_frame, beef_frame_twice])
             else 0)"
    unfolding merge_farms_beef_twice by blast
  then have b: "count_list (keys_of farms_beef_twice_merged) lane_key = 1 * 2"
    by (simp add: farms_frame_def beef_frame_twice_def keys_of_def lane_key_def)
  show ?thesis
    using a b sample_frames_ok merge_farms_beef merge_farms_beef_twice
    by (simp add: list_all_iff)
qed

text \<open>
  Claim C7, as stated, fails: a key that occurs twice in one input table occurs twice
  in the merged table, since the join pairs every left row with every right row of
  the same key.
\<close>

theorem merge_duplicate_key_counterexample:
  "reduce merge_outer [farms_frame, beef_frame_twice] = Inr farms_beef_twice_merged
   \<and> count_list (keys_of farms_beef_twice_merged) lane_key = 2
   \<and> \<not> distinct (keys_of farms_beef_twice_merged)"
  using merge_farms_beef_twice
  by (simp add: farms_beef_twice_merged_def keys_of_def lane_key_def)

section \<open>The pipeline: properties\<close>




















end
